theory Spec2Isabelle
  imports Main "HOL-Library.Word" "HOL-Library.Signed_Division"
begin

chapter \<open>ppolicy-cracklib: the password checks of \<^verbatim>\<open>ppolicy-cracklib.c\<close>\<close>

section \<open>C data: strings, plain char, faults\<close>

text \<open>
  A run of the C code either returns or steps outside what C defines. The two ways the
  source can do the latter are a read or write outside an object and a read through a
  null pointer; both are results of the model, so that no theorem below silently
  assumes them away.
\<close>

datatype fault = OutOfBounds | NullDeref

type_synonym size_t = "64 word"

text \<open>
  A \<^verbatim>\<open>char *\<close> argument is the list of bytes it points to; the terminating NUL is
  implicit after the last element, and a NUL inside the list ends the string earlier, as
  it does in C. \<open>c_str\<close> is the string proper, and its length is what \<^verbatim>\<open>strlen\<close>
  returns (as a \<^verbatim>\<open>size_t\<close>, 64 bits wide on the LP64 targets of slapd).
\<close>

definition c_str :: "string \<Rightarrow> string" where
  "c_str buf = takeWhile (\<lambda>c. c \<noteq> CHR 0x00) buf"

definition strlen :: "string \<Rightarrow> size_t" where
  "strlen str = of_nat (length (c_str str))"

text \<open>
  \<^verbatim>\<open>str[i]\<close>: the bytes of the string and its terminator can be read; any other
  index is outside the object.
\<close>

definition str_at :: "string \<Rightarrow> size_t \<Rightarrow> fault + char" where
  "str_at str i =
     (if unat i < length (c_str str) then Inr (str ! unat i)
      else if unat i = length (c_str str) then Inr (CHR 0x00)
      else Inl OutOfBounds)"

text \<open>
  Whether plain \<^verbatim>\<open>char\<close> is signed is left to the C implementation (signed on
  x86-64, unsigned on AArch64 and POWER Linux). Every function that reads a
  \<^verbatim>\<open>char\<close> therefore takes the flag \<open>sc\<close> (``plain char is signed''), and
  \<open>char_value sc c\<close> is the value of the byte \<open>c\<close> after the integer promotion.
\<close>

definition char_value :: "bool \<Rightarrow> char \<Rightarrow> int" where
  "char_value sc c = (if sc \<and> 128 \<le> (of_char c :: int) then of_char c - 256 else of_char c)"

text \<open>
  Modelled from the spec: the \<^verbatim>\<open><ctype.h>\<close> functions belong to the C library,
  not to the repository. The spec fixes the classification as the ASCII character
  classes; these are the tables of the "C" locale, in which every value outside
  \<open>0..127\<close> is in no class and is left alone by \<^verbatim>\<open>tolower\<close>.
\<close>

definition isdigit :: "int \<Rightarrow> bool" where
  "isdigit c \<longleftrightarrow> 48 \<le> c \<and> c \<le> 57"

definition islower :: "int \<Rightarrow> bool" where
  "islower c \<longleftrightarrow> 97 \<le> c \<and> c \<le> 122"

definition isupper :: "int \<Rightarrow> bool" where
  "isupper c \<longleftrightarrow> 65 \<le> c \<and> c \<le> 90"

definition ispunct :: "int \<Rightarrow> bool" where
  "ispunct c \<longleftrightarrow>
     33 \<le> c \<and> c \<le> 47 \<or> 58 \<le> c \<and> c \<le> 64 \<or> 91 \<le> c \<and> c \<le> 96 \<or> 123 \<le> c \<and> c \<le> 126"

definition isspace :: "int \<Rightarrow> bool" where
  "isspace c \<longleftrightarrow> c = 32 \<or> 9 \<le> c \<and> c \<le> 13"

definition tolower :: "int \<Rightarrow> int" where
  "tolower c = (if 65 \<le> c \<and> c \<le> 90 then c + 32 else c)"

section \<open>\<^verbatim>\<open>is_palindrome\<close>\<close>

text \<open>
  \<^verbatim>\<open>
  size_t i = 0, j = strlen(str) - 1;
  if(i == j) return false;
  do {
      if(tolower(str[i]) != tolower(str[j])) return false;
  } while(++i <= --j);
  return true;
  \<close>
  \<open>pal_loop\<close> is the \<^verbatim>\<open>do ... while\<close>: one call is one pass through the body. The
  subtraction and the two steps are those of \<^verbatim>\<open>size_t\<close>, so they wrap.
\<close>

function pal_loop :: "bool \<Rightarrow> string \<Rightarrow> size_t \<Rightarrow> size_t \<Rightarrow> fault + bool" where
  "pal_loop sc str i j =
     (case str_at str i of
        Inl f \<Rightarrow> Inl f
      | Inr a \<Rightarrow>
         (case str_at str j of
            Inl f \<Rightarrow> Inl f
          | Inr b \<Rightarrow>
             if tolower (char_value sc a) \<noteq> tolower (char_value sc b) then Inr False
             else if i + 1 \<le> j - 1 then pal_loop sc str (i + 1) (j - 1)
             else Inr True))"
  by pat_completeness auto

definition is_palindrome :: "bool \<Rightarrow> string \<Rightarrow> fault + bool" where
  "is_palindrome sc str =
     (let i = 0; j = strlen str - 1
      in if i = j then Inr False else pal_loop sc str i j)"

section \<open>\<^verbatim>\<open>is_simple\<close>\<close>

text \<open>
  The locals of \<^verbatim>\<open>is_simple\<close>: the table \<^verbatim>\<open>int chars[256]\<close> and the seven
  counters. A counter only counts bytes of the password, so it is at most the length of
  the password (\<open>counters_le_length\<close> below), and the 32-bit \<^verbatim>\<open>int\<close> of the
  code holds it for every password shorter than \<open>2 ^ 31\<close> bytes; the model keeps it
  in an \<open>int\<close>. The one place where the code forms a larger number is the product of
  a counter and 100; \<open>percent\<close> below gives that product its 32 bits.
\<close>

record counts =
  chars :: "int list"
  total_digits :: int
  total_lower :: int
  total_upper :: int
  total_punct :: int
  total_space :: int
  total_other :: int
  total :: int

definition counts0 :: counts where
  "counts0 = \<lparr>chars = replicate 256 0, total_digits = 0, total_lower = 0, total_upper = 0,
     total_punct = 0, total_space = 0, total_other = 0, total = 0\<rparr>"

text \<open>
  The body of the counting loop, for the byte \<open>c\<close>:
  \<^verbatim>\<open>
  if(isdigit(*c)) total_digits++;
  else if(islower(*c)) total_lower++;
  else if(isupper(*c)) total_upper++;
  else if(ispunct(*c)) total_punct++;
  else if(isspace(*c)) total_space++;
  else total_other++;
  (chars[(size_t)*c])++;
  \<close>
  The index is the promoted value of the \<^verbatim>\<open>char\<close> converted to \<^verbatim>\<open>size_t\<close>: a
  negative value becomes an index near \<open>2 ^ 64\<close>, outside the table.
\<close>

definition count_char :: "bool \<Rightarrow> char \<Rightarrow> counts \<Rightarrow> fault + counts" where
  "count_char sc c t =
     (let v = char_value sc c;
          t1 = (if isdigit v then t\<lparr>total_digits := total_digits t + 1\<rparr>
                else if islower v then t\<lparr>total_lower := total_lower t + 1\<rparr>
                else if isupper v then t\<lparr>total_upper := total_upper t + 1\<rparr>
                else if ispunct v then t\<lparr>total_punct := total_punct t + 1\<rparr>
                else if isspace v then t\<lparr>total_space := total_space t + 1\<rparr>
                else t\<lparr>total_other := total_other t + 1\<rparr>);
          k = (word_of_int v :: size_t)
      in if unat k < 256
         then Inr (t1\<lparr>chars := (chars t1)[unat k := chars t1 ! unat k + 1]\<rparr>)
         else Inl OutOfBounds)"

text \<open>
  The \<^verbatim>\<open>for\<close> loop over the string, from \<^verbatim>\<open>c = str\<close> up to the
  terminating NUL, with \<^verbatim>\<open>c++, total++\<close> after each pass: the list is what
  \<^verbatim>\<open>c\<close> still points to.
\<close>

fun count_loop :: "bool \<Rightarrow> string \<Rightarrow> counts \<Rightarrow> fault + counts" where
  "count_loop sc [] t = Inr t"
| "count_loop sc (c # cs) t =
     (if c = CHR 0x00 then Inr t
      else (case count_char sc c t of
              Inl f \<Rightarrow> Inl f
            | Inr t' \<Rightarrow> count_loop sc cs (t'\<lparr>total := total t' + 1\<rparr>)))"

text \<open>
  The out-parameter \<^verbatim>\<open>char **errstr\<close> is the cell it points to: \<open>pointee\<close> is the
  string now stored there (\<open>None\<close> for a null pointer), and \<open>assigned\<close> counts the
  assignments made to the cell, so that ``left unmodified'' and ``stored exactly once''
  can be told apart from ``stored the same string again''.
  \<open>strdup_to msg\<close> is \<^verbatim>\<open>*errstr = strdup(msg)\<close>, with \<^verbatim>\<open>strdup\<close> taken to
  succeed.
\<close>

record errptr =
  pointee :: "string option"
  assigned :: nat

definition strdup_to :: "string \<Rightarrow> errptr \<Rightarrow> errptr" where
  "strdup_to msg e = e\<lparr>pointee := Some msg, assigned := assigned e + 1\<rparr>"

text \<open>
  \<^verbatim>\<open>(n * 100) / total\<close> on C integers. The product is formed in a 32-bit
  \<^verbatim>\<open>int\<close>: it fits as long as the counter is at most 21474836, and beyond that it
  overflows. C leaves signed overflow undefined; the multiplication of the
  two's-complement targets of slapd wraps, and \<open>int32\<close> writes that out: \<open>int32 x\<close>
  is the value of a 32-bit \<^verbatim>\<open>int\<close> into which \<open>x\<close> has been wrapped. The quotient
  is truncated towards zero, which is \<open>sdiv\<close>.
\<close>

definition int32 :: "int \<Rightarrow> int" where
  "int32 x = (x + 2147483648) mod 4294967296 - 2147483648"

definition percent :: "int \<Rightarrow> int \<Rightarrow> int" where
  "percent n tot = int32 (n * 100) sdiv tot"

text \<open>``Convert the totals into percentages'': the six counters are overwritten.\<close>

definition to_percentages :: "counts \<Rightarrow> counts" where
  "to_percentages t =
     t\<lparr>total_digits := percent (total_digits t) (total t),
       total_lower := percent (total_lower t) (total t),
       total_upper := percent (total_upper t) (total t),
       total_punct := percent (total_punct t) (total t),
       total_space := percent (total_space t) (total t),
       total_other := percent (total_other t) (total t)\<rparr>"

text \<open>
  The block \<^verbatim>\<open>if(total_other < 20) { ... }\<close>. \<open>Some r\<close> is an early
  \<^verbatim>\<open>return\<close> with the returned flag and the cell after the assignment; \<open>None\<close>
  means that control falls out of the block.
\<close>

definition class_checks :: "counts \<Rightarrow> errptr \<Rightarrow> (bool \<times> errptr) option" where
  "class_checks p errstr =
     (if total_other p < 20 then
        (if total_digits p > 40 then
           Some (True, strdup_to ''Password contains too many digits'' errstr)
         else if total_digits p < 5 then
           Some (True, strdup_to ''Password contains too few digits'' errstr)
         else if total_lower p > 60 then
           Some (True, strdup_to ''Password contains too many lowercase letters'' errstr)
         else if total_lower p < 10 then
           Some (True, strdup_to ''Password contains too few lowercase letters'' errstr)
         else if total_upper p > 60 then
           Some (True, strdup_to ''Password contains too many uppercase letters'' errstr)
         else if total_upper p < 10 then
           Some (True, strdup_to ''Password contains too few uppercase letters'' errstr)
         else if total_punct p > 70 then
           Some (True, strdup_to ''Password contains too much punctuation'' errstr)
         else if total_punct p < 5 then
           Some (True, strdup_to ''Password contains too little punctuation'' errstr)
         else if total_space p > 10 then
           Some (True, strdup_to ''Password contains too much whitespace'' errstr)
         else None)
      else None)"

text \<open>
  \<^verbatim>\<open>
  int iter_total = 0;
  for(size_t i = 0; i < 255 && iter_total < total; i++) {
      int percent = (chars[i] * 100) / total;
      iter_total += chars[i];
      if(percent > 60) { *errstr = strdup("..."); return true; }
  }
  \<close>
  The index stays below 255, so a natural number holds it.
\<close>

function char_loop :: "counts \<Rightarrow> errptr \<Rightarrow> nat \<Rightarrow> int \<Rightarrow> (bool \<times> errptr) option" where
  "char_loop p errstr i iter_total =
     (if i < 255 \<and> iter_total < total p then
        (let pct = percent (chars p ! i) (total p);
             iter_total' = iter_total + chars p ! i
         in if pct > 60 then
              Some (True, strdup_to ''Password contains too many of a single character'' errstr)
            else char_loop p errstr (i + 1) iter_total')
      else None)"
  by pat_completeness auto
termination
  by (relation "measure (\<lambda>(p, errstr, i, iter_total). 255 - i)") auto

definition is_simple :: "bool \<Rightarrow> string \<Rightarrow> errptr \<Rightarrow> fault + (bool \<times> errptr)" where
  "is_simple sc str errstr =
     (case count_loop sc str counts0 of
        Inl f \<Rightarrow> Inl f
      | Inr t \<Rightarrow>
          if total t < 8 then Inr (True, strdup_to ''Password is too short'' errstr)
          else
            (let p = to_percentages t
             in (case class_checks p errstr of
                   Some r \<Rightarrow> Inr r
                 | None \<Rightarrow>
                    (case char_loop p errstr 0 0 of
                       Some r \<Rightarrow> Inr r
                     | None \<Rightarrow> Inr (False, errstr)))))"

section \<open>\<^verbatim>\<open>get_user_info\<close> and \<^verbatim>\<open>check_password\<close>\<close>

text \<open>
  Of slapd's \<^verbatim>\<open>Entry\<close> and \<^verbatim>\<open>Attribute\<close> the code reads the attribute list, the
  name of each attribute and its values; \<^verbatim>\<open>a_numvals\<close> is the number of values.
\<close>

record Attribute =
  ad_cname :: string
  a_vals :: "string list"

definition a_numvals :: "Attribute \<Rightarrow> nat" where
  "a_numvals a = length (a_vals a)"

record Entry =
  e_attrs :: "Attribute list"

text \<open>
  The loop of \<^verbatim>\<open>get_user_info\<close> over the attribute list, which stops as soon as both
  \<^verbatim>\<open>*gecos\<close> and \<^verbatim>\<open>*uid\<close> are set.
\<close>

fun get_user_loop :: "Attribute list \<Rightarrow> string option \<Rightarrow> string option \<Rightarrow> string option \<times> string option" where
  "get_user_loop [] gecos uid = (gecos, uid)"
| "get_user_loop (a # as) gecos uid =
     (if gecos = None \<or> uid = None then
        (if ad_cname a = ''gecos'' \<and> a_numvals a > 0 then
           get_user_loop as (Some (a_vals a ! 0)) uid
         else if ad_cname a = ''uid'' \<and> a_numvals a > 0 then
           get_user_loop as gecos (Some (a_vals a ! 0))
         else get_user_loop as gecos uid)
      else (gecos, uid))"

definition get_user_info :: "Entry \<Rightarrow> bool \<times> string option \<times> string option" where
  "get_user_info pEntry =
     (let (gecos, uid) = get_user_loop (e_attrs pEntry) None None
      in (uid \<noteq> None, gecos, uid))"

text \<open>
  What \<^verbatim>\<open>check_password\<close> does to the process besides returning: the assignments to
  \<^verbatim>\<open>*ppErrStr\<close> and the calls of \<^verbatim>\<open>openlog\<close>, \<^verbatim>\<open>syslog\<close> and
  \<^verbatim>\<open>closelog\<close>, kept in the order they are made. A \<^verbatim>\<open>syslog\<close> call is kept as
  its priority, its format and the strings passed for \<^verbatim>\<open>%s\<close>.
\<close>

datatype priority = LOG_ERR | LOG_INFO

datatype log_event =
    Openlog string
  | Syslog priority string "string option list"
  | Closelog

record world =
  ppErrStr :: errptr
  logged :: "log_event list"

definition emit :: "log_event \<Rightarrow> world \<Rightarrow> world" where
  "emit ev w = w\<lparr>logged := logged w @ [ev]\<rparr>"

text \<open>
  cracklib is outside the repository: its three entry points are parameters of the
  model. \<open>None\<close> is the null pointer that \<^verbatim>\<open>FascistCheck\<close> returns for a password
  it has nothing against.
\<close>

record cracklib =
  GetDefaultCracklibDict :: string
  FascistCheck :: "string \<Rightarrow> string \<Rightarrow> string option"
  FascistCheckUser :: "string \<Rightarrow> string \<Rightarrow> string \<Rightarrow> string option \<Rightarrow> string option"

text \<open>Modelled from the spec: \<^verbatim>\<open>LDAP_SUCCESS\<close> is a macro of \<^verbatim>\<open>ldap.h\<close>, the success code 0.\<close>

definition LDAP_SUCCESS :: int where
  "LDAP_SUCCESS = 0"

text \<open>
  The two hints of \<^verbatim>\<open>check_password\<close>, \<open>None\<close> when null, as they stand
  after its first block:
  \<^verbatim>\<open>
  char *gecos = NULL, *uid = NULL;
  ...
  if(pEntry != NULL) {
      if(!get_user_info(pEntry, &gecos, &uid))
          syslog(LOG_ERR, "Could not update password for user: couldn't find username");
      // Out of an abundance of caution
      uid = gecos = NULL;
  }
  \<close>
\<close>

definition identity_hints :: "Entry option \<Rightarrow> world \<Rightarrow> string option \<times> string option \<times> world" where
  "identity_hints pEntry w =
     (let gecos = None; uid = None
      in (case pEntry of
            None \<Rightarrow> (gecos, uid, w)
          | Some e \<Rightarrow>
              (let (found, gecos', uid') = get_user_info e;
                   w' = (if \<not> found
                         then emit (Syslog LOG_ERR
                           ''Could not update password for user: couldn't find username'' []) w
                         else w);
                   uid'' = None; gecos'' = None
               in (gecos'', uid'', w'))))"

text \<open>
  The last stage of \<^verbatim>\<open>check_password\<close>, from the call of cracklib to the end:
  \<^verbatim>\<open>
  const char const *error = (*uid ? FascistCheckUser(pPasswd, dict, uid, gecos)
                                  : FascistCheck(pPasswd, dict));
  if(error) {
      syslog(LOG_INFO, "... (cracklib: %s)", uid, error);
      *ppErrStr = strdup(error);
      closelog();
      return -1;
  }
  closelog();
  return LDAP_SUCCESS;
  \<close>
  The condition \<^verbatim>\<open>*uid\<close> reads the first byte of \<^verbatim>\<open>uid\<close>, which is a read
  through a null pointer when \<^verbatim>\<open>uid\<close> is null.
\<close>

definition dictionary_stage ::
    "cracklib \<Rightarrow> string \<Rightarrow> string \<Rightarrow> string option \<Rightarrow> string option \<Rightarrow> world
       \<Rightarrow> fault + (int \<times> world)" where
  "dictionary_stage lib pPasswd dict uid gecos w =
     (case uid of
        None \<Rightarrow> Inl NullDeref
      | Some u \<Rightarrow>
          (let error = (if str_at u 0 \<noteq> Inr (CHR 0x00)
                        then FascistCheckUser lib pPasswd dict u gecos
                        else FascistCheck lib pPasswd dict)
           in (case error of
                 Some msg \<Rightarrow>
                   (let w1 = emit (Syslog LOG_INFO
                      ''User %s attempted to change password to a bad password (cracklib: %s)''
                      [uid, error]) w;
                        w2 = w1\<lparr>ppErrStr := strdup_to msg (ppErrStr w1)\<rparr>
                    in Inr (- 1, emit Closelog w2))
               | None \<Rightarrow> Inr (LDAP_SUCCESS, emit Closelog w))))"

text \<open>
  \<^verbatim>\<open>check_password\<close>, statement by statement: the dictionary path is fetched and the
  log opened, the hints are taken from the entry, and the three checks run in the order
  palindrome, complexity, cracklib. \<^verbatim>\<open>is_simple\<close> is handed \<^verbatim>\<open>ppErrStr\<close>
  itself, so what it assigns is assigned to the caller's cell.
\<close>

definition check_password ::
    "bool \<Rightarrow> cracklib \<Rightarrow> string \<Rightarrow> Entry option \<Rightarrow> world \<Rightarrow> fault + (int \<times> world)" where
  "check_password sc lib pPasswd pEntry w0 =
     (let dict = GetDefaultCracklibDict lib;
          w1 = emit (Openlog ''slapd'') w0;
          (gecos, uid, w2) = identity_hints pEntry w1
      in (case is_palindrome sc pPasswd of
            Inl f \<Rightarrow> Inl f
          | Inr True \<Rightarrow>
              (let w3 = emit (Syslog LOG_INFO
                          ''User %s attempted to change password to a bad password (palindrome)''
                          [uid]) w2;
                   w4 = w3\<lparr>ppErrStr := strdup_to ''Password is a palindrome'' (ppErrStr w3)\<rparr>
               in Inr (- 1, emit Closelog w4))
          | Inr False \<Rightarrow>
              (case is_simple sc pPasswd (ppErrStr w2) of
                 Inl f \<Rightarrow> Inl f
               | Inr (True, e') \<Rightarrow>
                   (let w3 = w2\<lparr>ppErrStr := e'\<rparr>;
                        w4 = emit (Syslog LOG_INFO
                          ''User %s attempted to change password to a bad password (insufficiently complex: %s''
                          [uid, pointee e']) w3
                    in Inr (- 1, emit Closelog w4))
               | Inr (False, e') \<Rightarrow>
                   dictionary_stage lib pPasswd dict uid gecos (w2\<lparr>ppErrStr := e'\<rparr>))))"

text \<open>
  What a caller observes of a run: the fault, or the return code together with the reason
  left in \<^verbatim>\<open>*ppErrStr\<close> when the code is not \<^verbatim>\<open>LDAP_SUCCESS\<close>.
\<close>

definition verdict :: "fault + (int \<times> world) \<Rightarrow> fault + (int \<times> string option)" where
  "verdict r =
     (case r of
        Inl f \<Rightarrow> Inl f
      | Inr (rc, w) \<Rightarrow> Inr (rc, if rc = LDAP_SUCCESS then None else pointee (ppErrStr w)))"

text \<open>
  The class bounds as the specification tabulates them: the five classes in the order
  digits, lowercase, uppercase, punctuation, whitespace, for each class the upper bound
  before the lower one, each bound with its reason. \<open>first_violation\<close> is the reason
  of the first row of the table that the percentages violate.
\<close>

datatype char_class = Digits | Lowercase | Uppercase | Punctuation | Whitespace

datatype direction = TooMany | TooFew

definition class_bounds :: "(char_class \<times> direction \<times> int \<times> string) list" where
  "class_bounds =
     [(Digits, TooMany, 40, ''Password contains too many digits''),
      (Digits, TooFew, 5, ''Password contains too few digits''),
      (Lowercase, TooMany, 60, ''Password contains too many lowercase letters''),
      (Lowercase, TooFew, 10, ''Password contains too few lowercase letters''),
      (Uppercase, TooMany, 60, ''Password contains too many uppercase letters''),
      (Uppercase, TooFew, 10, ''Password contains too few uppercase letters''),
      (Punctuation, TooMany, 70, ''Password contains too much punctuation''),
      (Punctuation, TooFew, 5, ''Password contains too little punctuation''),
      (Whitespace, TooMany, 10, ''Password contains too much whitespace'')]"

fun class_percent :: "counts \<Rightarrow> char_class \<Rightarrow> int" where
  "class_percent p Digits = total_digits p"
| "class_percent p Lowercase = total_lower p"
| "class_percent p Uppercase = total_upper p"
| "class_percent p Punctuation = total_punct p"
| "class_percent p Whitespace = total_space p"

fun violates :: "counts \<Rightarrow> char_class \<times> direction \<times> int \<times> string \<Rightarrow> bool" where
  "violates p (c, TooMany, b, msg) \<longleftrightarrow> class_percent p c > b"
| "violates p (c, TooFew, b, msg) \<longleftrightarrow> class_percent p c < b"

definition first_violation :: "counts \<Rightarrow> string option" where
  "first_violation p = map_option (\<lambda>(c, d, b, msg). msg) (find (violates p) class_bounds)"

text \<open>
  Fixed inputs for the closed examples: a cell and a process in which nothing has
  happened yet, a cracklib that has nothing against any password and one that turns
  every password down.
\<close>

definition null_errptr :: errptr where
  "null_errptr = \<lparr>pointee = None, assigned = 0\<rparr>"

definition fresh_world :: world where
  "fresh_world = \<lparr>ppErrStr = null_errptr, logged = []\<rparr>"

definition lenient_cracklib :: cracklib where
  "lenient_cracklib =
     \<lparr>GetDefaultCracklibDict = ''/usr/share/cracklib/pw_dict'',
      FascistCheck = (\<lambda>pw dict. None),
      FascistCheckUser = (\<lambda>pw dict user gecos. None)\<rparr>"

definition strict_cracklib :: cracklib where
  "strict_cracklib =
     \<lparr>GetDefaultCracklibDict = ''/usr/share/cracklib/pw_dict'',
      FascistCheck = (\<lambda>pw dict. Some ''it is based on a dictionary word''),
      FascistCheckUser = (\<lambda>pw dict user gecos. Some ''it is based on your username'')\<rparr>"

text \<open>
  The reason \<^verbatim>\<open>is_simple\<close> stores, read off a run on the null cell: \<open>None\<close> when it
  returns false.
\<close>

definition simple_verdict :: "bool \<Rightarrow> string \<Rightarrow> fault + string option" where
  "simple_verdict sc str =
     (case is_simple sc str null_errptr of
        Inl f \<Rightarrow> Inl f
      | Inr (b, e') \<Rightarrow> Inr (if b then pointee e' else None))"

text \<open>
  The six class counters of a counting pass, each with the percentage that
  \<^verbatim>\<open>is_simple\<close> makes of it.
\<close>

definition class_rows :: "counts \<Rightarrow> (int \<times> int) list" where
  "class_rows t =
     [(total_digits t, total_digits (to_percentages t)),
      (total_lower t, total_lower (to_percentages t)),
      (total_upper t, total_upper (to_percentages t)),
      (total_punct t, total_punct (to_percentages t)),
      (total_space t, total_space (to_percentages t)),
      (total_other t, total_other (to_percentages t))]"

text \<open>An entry with a login name and a display name.\<close>

definition entry_bob :: Entry where
  "entry_bob =
     \<lparr>e_attrs = [\<lparr>ad_cname = ''uid'', a_vals = [''bob'']\<rparr>,
                \<lparr>ad_cname = ''gecos'', a_vals = [''Bob Smith'']\<rparr>]\<rparr>"

definition class_sum :: "counts \<Rightarrow> int" where
  "class_sum t = total_digits t + total_lower t + total_upper t + total_punct t
     + total_space t + total_other t"

text \<open>
  Two predicates and two measures that the proofs below use. \<open>seven_bit\<close> holds of a
  string without a byte above 127; \<open>mirrored sc str k\<close> says that the bytes at
  distance \<open>k\<close> from the two ends of the string are equal after \<^verbatim>\<open>tolower\<close>;
  \<open>nonneg_counts\<close> says that no counter and no table entry is negative;
  \<open>pal_measure\<close> is what decreases along the palindrome loop.
\<close>

definition seven_bit :: "string \<Rightarrow> bool" where
  "seven_bit str \<longleftrightarrow> list_all (\<lambda>c. (of_char c :: int) < 128) (c_str str)"

definition mirrored :: "bool \<Rightarrow> string \<Rightarrow> nat \<Rightarrow> bool" where
  "mirrored sc str k \<longleftrightarrow>
     tolower (char_value sc (str ! k)) =
     tolower (char_value sc (str ! (length (c_str str) - 1 - k)))"

definition nonneg_counts :: "counts \<Rightarrow> bool" where
  "nonneg_counts t \<longleftrightarrow>
     list_all (\<lambda>x. 0 \<le> x) (chars t) \<and> 0 \<le> total_digits t \<and> 0 \<le> total_lower t
     \<and> 0 \<le> total_upper t \<and> 0 \<le> total_punct t \<and> 0 \<le> total_space t \<and> 0 \<le> total_other t"

definition pal_measure :: "size_t \<Rightarrow> size_t \<Rightarrow> nat" where
  "pal_measure i j =
     (if j < i then 2 ^ 64 + 1
      else if j = 0 \<or> i = - 1 then 2 ^ 64
      else unat j - unat i)"

chapter \<open>Properties of the model\<close>

section \<open>Termination of the palindrome loop\<close>

text \<open>
  The loop continues only while \<open>i + 1 \<le> j - 1\<close> holds after the two steps. When
  neither step wraps, the distance between the indices shrinks by two. A step wraps
  only from \<open>j = 0\<close> or from \<open>i = 2 ^ 64 - 1\<close>, and no pass that continues leads
  back to such a pair.
\<close>

lemma unat_succ: "(i::size_t) \<noteq> - 1 \<Longrightarrow> unat (i + 1) = unat i + 1"
  by (metis add.commute unatSuc max_word_wrap plus_1_eq_Suc)

lemma unat_pred: "(j::size_t) \<noteq> 0 \<Longrightarrow> unat (j - 1) = unat j - 1"
  by (simp add: unat_minus_one)

lemma unat_size_t_bound: "unat (w::size_t) < 2 ^ 64"
  using unsigned_less [of w] by simp

lemma pal_measure_decreases:
  assumes le: "i + 1 \<le> j - 1"
  shows "pal_measure (i + 1) (j - 1) < pal_measure i j"
proof -
  have callee_le: "\<not> j - 1 < i + 1" using le by simp
  have small: "unat (j - 1) - unat (i + 1) < 2 ^ 64"
    using unat_size_t_bound [of "j - 1"] by simp
  consider (crossed) "j < i" | (edge) "i \<le> j" "j = 0 \<or> i = - 1"
    | (inner) "i \<le> j" "j \<noteq> 0" "i \<noteq> - 1"
    by (cases "j < i") (auto simp: not_less)
  then show ?thesis
  proof cases
    case crossed
    then show ?thesis using callee_le small by (simp add: pal_measure_def)
  next
    case edge
    have "j - 1 \<noteq> 0 \<and> i + 1 \<noteq> - 1"
    proof (cases "j = 0")
      case True
      with edge(1) have "i = 0" by simp
      with True show ?thesis by simp
    next
      case False
      with edge(2) have i: "i = - 1" by simp
      with edge(1) have "j = - 1" by (simp add: word_order.extremum_unique)
      with i show ?thesis by simp
    qed
    then show ?thesis using edge callee_le small by (simp add: pal_measure_def)
  next
    case inner
    have ne: "j - 1 \<noteq> 0 \<and> i + 1 \<noteq> - 1"
    proof (intro conjI notI)
      assume "j - 1 = 0"
      with le have "i + 1 = 0" by simp
      then have "i = - 1" by (simp add: eq_neg_iff_add_eq_0)
      with inner(3) show False by simp
    next
      assume e: "i + 1 = - 1"
      with le have "j - 1 = - 1" by (simp add: word_order.extremum_unique)
      then have "j = 0" by simp
      with inner(2) show False by simp
    qed
    have "unat (j - 1) - unat (i + 1) < unat j - unat i"
      using le inner by (simp add: word_le_nat_alt unat_succ unat_pred)
    then show ?thesis using inner ne callee_le by (simp add: pal_measure_def)
  qed
qed

termination pal_loop
  by (relation "measure (\<lambda>(sc, str, i, j). pal_measure i j)")
     (simp_all add: pal_measure_decreases)

declare pal_loop.simps [simp del]
declare char_loop.simps [simp del]

lemma size_max: "(- 1 :: size_t) = 18446744073709551615"
  by simp

section \<open>The palindrome loop on a non-empty string\<close>

text \<open>
  Started inside the string, the loop never leaves it: on a string of \<open>n \<ge> 1\<close> bytes
  \<^verbatim>\<open>is_palindrome\<close> returns, and its value is true exactly when \<open>n \<ge> 2\<close> and
  every byte matches its mirror image after case folding. (A C string is shorter than
  \<open>2 ^ 64\<close> bytes; the model's lists need the bound said.)
\<close>

lemma unat_index: "a < 2 ^ 64 \<Longrightarrow> unat (of_nat a :: size_t) = a"
  by (simp add: unat_of_nat)

lemma str_at_inside: "a < length (c_str str) \<Longrightarrow> length (c_str str) < 2 ^ 64 \<Longrightarrow>
   str_at str (of_nat a) = Inr (str ! a)"
  by (simp add: str_at_def unat_index)

lemma pal_loop_unfold:
  assumes "str_at str i = Inr x" and "str_at str j = Inr y"
  shows "pal_loop sc str i j =
     (if \<not> (tolower (char_value sc x) = tolower (char_value sc y)) then Inr False
      else if i + 1 \<le> j - 1 then pal_loop sc str (i + 1) (j - 1)
      else Inr True)"
  by (subst pal_loop.simps) (simp add: assms)

lemma pal_loop_inside:
  assumes n: "length (c_str str) < 2 ^ 64"
    and ab: "a \<le> b" "a + b = length (c_str str) - 1" "1 \<le> b"
  shows "pal_loop sc str (of_nat a) (of_nat b) = Inr (\<forall>k. a \<le> k \<and> k \<le> b \<longrightarrow> mirrored sc str k)"
  using ab
proof (induction "b - a" arbitrary: a b rule: less_induct)
  case less
  let ?n = "length (c_str str)"
  from less.prems have lt: "a < ?n" "b < ?n" by arith+
  with n have small: "a < 2 ^ 64" "b < 2 ^ 64" "a + 1 < 2 ^ 64" "b - 1 < 2 ^ 64" by arith+
  have ra: "str_at str (of_nat a) = Inr (str ! a)" using lt n by (simp add: str_at_inside)
  have rb: "str_at str (of_nat b) = Inr (str ! b)" using lt n by (simp add: str_at_inside)
  have ba: "?n - 1 - a = b" and bb: "?n - 1 - b = a" using less.prems by arith+
  have ma: "mirrored sc str a \<longleftrightarrow> tolower (char_value sc (str ! a)) = tolower (char_value sc (str ! b))"
    unfolding mirrored_def ba by (rule refl)
  have mb: "mirrored sc str b \<longleftrightarrow> mirrored sc str a"
    unfolding mirrored_def ba bb by (rule eq_commute)
  have ia: "(of_nat a :: size_t) + 1 = of_nat (a + 1)" by simp
  have ib: "(of_nat b :: size_t) - 1 = of_nat (b - 1)" using less.prems(3) by (simp add: of_nat_diff)
  have cmp: "(of_nat (a + 1) :: size_t) \<le> of_nat (b - 1) \<longleftrightarrow> a + 1 \<le> b - 1"
    using small by (simp add: word_le_nat_alt unat_index del: of_nat_add of_nat_Suc)
  note unf0 = pal_loop_unfold [OF ra rb, of sc, unfolded ia ib cmp ma [symmetric]]
  show ?case
  proof (cases "mirrored sc str a")
    case False
    with unf0 have "pal_loop sc str (of_nat a) (of_nat b) = Inr False"
      by (simp only: if_True not_False_eq_True)
    with False less.prems(1) show ?thesis by auto
  next
    case True
    show ?thesis
    proof (cases "a + 1 \<le> b - 1")
      case False
      with True unf0 have "pal_loop sc str (of_nat a) (of_nat b) = Inr True"
        by (simp only: not_True_eq_False if_False)
      moreover have "\<forall>k. a \<le> k \<and> k \<le> b \<longrightarrow> mirrored sc str k"
      proof (intro allI impI)
        fix k assume "a \<le> k \<and> k \<le> b"
        with False have "k = a \<or> k = b" by arith
        with True mb show "mirrored sc str k" by auto
      qed
      ultimately show ?thesis by simp
    next
      case step: True
      with True unf0 have unf: "pal_loop sc str (of_nat a) (of_nat b)
          = pal_loop sc str (of_nat (a + 1)) (of_nat (b - 1))"
        by (simp only: not_True_eq_False if_False if_True)
      have "b - 1 - (a + 1) < b - a" using step by arith
      moreover have "a + 1 \<le> b - 1" "a + 1 + (b - 1) = ?n - 1" "1 \<le> b - 1"
        using step less.prems by arith+
      ultimately have ih: "pal_loop sc str (of_nat (a + 1)) (of_nat (b - 1))
          = Inr (\<forall>k. a + 1 \<le> k \<and> k \<le> b - 1 \<longrightarrow> mirrored sc str k)"
        by (rule less.hyps)
      have "(\<forall>k. a + 1 \<le> k \<and> k \<le> b - 1 \<longrightarrow> mirrored sc str k)
          \<longleftrightarrow> (\<forall>k. a \<le> k \<and> k \<le> b \<longrightarrow> mirrored sc str k)"
      proof
        assume h: "\<forall>k. a + 1 \<le> k \<and> k \<le> b - 1 \<longrightarrow> mirrored sc str k"
        show "\<forall>k. a \<le> k \<and> k \<le> b \<longrightarrow> mirrored sc str k"
        proof (intro allI impI)
          fix k assume k: "a \<le> k \<and> k \<le> b"
          then consider "k = a" | "k = b" | "a + 1 \<le> k \<and> k \<le> b - 1" by arith
          then show "mirrored sc str k" using True mb h by cases auto
        qed
      next
        assume h: "\<forall>k. a \<le> k \<and> k \<le> b \<longrightarrow> mirrored sc str k"
        show "\<forall>k. a + 1 \<le> k \<and> k \<le> b - 1 \<longrightarrow> mirrored sc str k"
          using h by auto
      qed
      with unf ih show ?thesis by (simp only:)
    qed
  qed
qed

lemma is_palindrome_nonempty:
  assumes "1 \<le> length (c_str str)" and "length (c_str str) < 2 ^ 64"
  shows "is_palindrome sc str =
     Inr (2 \<le> length (c_str str) \<and> (\<forall>k < length (c_str str). mirrored sc str k))"
proof (cases "length (c_str str) = 1")
  case True
  then show ?thesis by (simp add: is_palindrome_def strlen_def)
next
  case False
  let ?n = "length (c_str str)"
  from False assms have n2: "2 \<le> ?n" by arith
  have j: "strlen str - 1 = of_nat (?n - 1)"
    using assms(1) by (simp add: strlen_def of_nat_diff)
  have "unat (of_nat (?n - 1) :: size_t) = ?n - 1"
    using assms(2) by (intro unat_index) simp
  have ne: "(0 :: size_t) \<noteq> of_nat (?n - 1)"
  proof
    assume "(0 :: size_t) = of_nat (?n - 1)"
    then have "unat (of_nat (?n - 1) :: size_t) = 0" by (metis unat_0)
    with \<open>unat (of_nat (?n - 1) :: size_t) = ?n - 1\<close> n2 show False by simp
  qed
  have "pal_loop sc str (of_nat 0) (of_nat (?n - 1))
      = Inr (\<forall>k. 0 \<le> k \<and> k \<le> ?n - 1 \<longrightarrow> mirrored sc str k)"
    using n2 by (intro pal_loop_inside [OF assms(2)]) simp_all
  moreover have "(0 \<le> k \<and> k \<le> ?n - 1) = (k < ?n)" for k
    using n2 by arith
  then have "(\<forall>k. 0 \<le> k \<and> k \<le> ?n - 1 \<longrightarrow> mirrored sc str k)
      \<longleftrightarrow> (\<forall>k < ?n. mirrored sc str k)"
    by simp
  ultimately show ?thesis using n2 ne by (simp add: is_palindrome_def j Let_def)
qed

section \<open>The counting pass\<close>

text \<open>
  A byte is an index into the table exactly when its promoted value is not negative:
  the conversion to \<^verbatim>\<open>size_t\<close> sends a negative value above \<open>2 ^ 64 - 129\<close>.
\<close>

lemma of_char_int_range: "0 \<le> (of_char c :: int) \<and> (of_char c :: int) < 256"
proof -
  have "(of_char c :: int) = int (of_char c)" by (simp add: of_nat_of_char)
  moreover have "(of_char c :: nat) < 256" by simp
  ultimately show ?thesis by simp
qed

lemma char_value_range: "- 128 \<le> char_value sc c \<and> char_value sc c < 256"
  using of_char_int_range [of c] by (simp add: char_value_def)

lemma char_value_unsigned: "char_value False c = of_char c"
  by (simp add: char_value_def)

lemma index_nonneg: "0 \<le> v \<Longrightarrow> v < 256 \<Longrightarrow> unat (word_of_int v :: size_t) = nat v"
  by (simp add: unat_eq_nat_uint uint_word_of_int)

lemma index_negative:
  assumes "- 128 \<le> v" "v < 0"
  shows "\<not> unat (word_of_int v :: size_t) < 256"
proof -
  have "(v + 18446744073709551616) mod 18446744073709551616 = v + 18446744073709551616"
    by (rule mod_pos_pos_trivial) (use assms in simp_all)
  then have "v mod 18446744073709551616 = v + 18446744073709551616"
    by simp
  then show ?thesis using assms
    by (simp add: unat_eq_nat_uint uint_word_of_int)
qed

lemma sum_list_bump:
  "k < length xs \<Longrightarrow> sum_list (xs[k := xs ! k + 1]) = sum_list xs + (1::int)"
proof (induction xs arbitrary: k)
  case Nil
  then show ?case by simp
next
  case (Cons x xs)
  then show ?case by (cases k) simp_all
qed

lemma count_char_Inr:
  assumes "count_char sc c t = Inr t'" and "length (chars t) = 256"
  shows "class_sum t' = class_sum t + 1 \<and> sum_list (chars t') = sum_list (chars t) + 1
         \<and> length (chars t') = 256 \<and> total t' = total t"
  using assms
  by (auto simp: count_char_def Let_def class_sum_def sum_list_bump split: if_splits)

lemma count_char_returns_iff:
  "(\<exists>t'. count_char sc c t = Inr t') \<longleftrightarrow> \<not> (sc \<and> 128 \<le> (of_char c :: int))"
proof (cases "sc \<and> 128 \<le> (of_char c :: int)")
  case True
  then have "- 128 \<le> char_value sc c \<and> char_value sc c < 0"
    using of_char_int_range [of c] by (simp add: char_value_def)
  then have "\<not> unat (word_of_int (char_value sc c) :: size_t) < 256"
    by (simp add: index_negative)
  then show ?thesis using True by (simp add: count_char_def Let_def)
next
  case False
  then have "0 \<le> char_value sc c \<and> char_value sc c < 256"
    using of_char_int_range [of c] by (auto simp: char_value_def)
  then have "unat (word_of_int (char_value sc c) :: size_t) < 256"
    using index_nonneg [of "char_value sc c"] by linarith
  then show ?thesis using False by (simp add: count_char_def Let_def)
qed

lemma count_loop_Inr:
  assumes "count_loop sc str t = Inr t'" and "length (chars t) = 256"
  shows "class_sum t' = class_sum t + int (length (c_str str))
         \<and> sum_list (chars t') = sum_list (chars t) + int (length (c_str str))
         \<and> total t' = total t + int (length (c_str str))
         \<and> length (chars t') = 256"
  using assms
proof (induction str arbitrary: t)
  case Nil
  then show ?case by (simp add: c_str_def)
next
  case (Cons c cs)
  show ?case
  proof (cases "c = CHR 0x00")
    case True
    with Cons.prems show ?thesis by (simp add: c_str_def)
  next
    case False
    with Cons.prems obtain t1 where t1: "count_char sc c t = Inr t1"
      and rest: "count_loop sc cs (t1\<lparr>total := total t1 + 1\<rparr>) = Inr t'"
      by (auto split: sum.splits)
    from count_char_Inr [OF t1 Cons.prems(2)]
    have step: "class_sum t1 = class_sum t + 1" "sum_list (chars t1) = sum_list (chars t) + 1"
      "length (chars t1) = 256" "total t1 = total t"
      by simp_all
    have "length (chars (t1\<lparr>total := total t1 + 1\<rparr>)) = 256" using step by simp
    from Cons.IH [OF rest this] step False show ?thesis
      by (simp add: c_str_def class_sum_def)
  qed
qed


lemma count_loop_returns:
  assumes "sc \<longrightarrow> (\<forall>c\<in>set (c_str str). (of_char c :: int) < 128)"
  shows "\<exists>t'. count_loop sc str t = Inr t'"
  using assms
proof (induction str arbitrary: t)
  case Nil
  then show ?case by simp
next
  case (Cons c cs)
  show ?case
  proof (cases "c = CHR 0x00")
    case True
    then show ?thesis by simp
  next
    case False
    with Cons.prems have "\<not> (sc \<and> 128 \<le> (of_char c :: int))"
      by (auto simp: c_str_def)
    then obtain t1 where t1: "count_char sc c t = Inr t1"
      using count_char_returns_iff [of sc c t] by blast
    from Cons.prems False have "sc \<longrightarrow> (\<forall>c\<in>set (c_str cs). (of_char c :: int) < 128)"
      by (simp add: c_str_def)
    from Cons.IH [OF this, of "t1\<lparr>total := total t1 + 1\<rparr>"] t1 False
    show ?thesis by simp
  qed
qed

lemma count_loop_total:
  assumes "count_loop sc str counts0 = Inr t"
  shows "total t = int (length (c_str str))"
proof -
  have "length (chars counts0) = 256" by (simp add: counts0_def)
  from count_loop_Inr [OF assms this] show ?thesis by (simp add: counts0_def)
qed

text \<open>
  The pass completes exactly when every byte is an index of the table: always where
  plain \<^verbatim>\<open>char\<close> is unsigned, and only for strings without a byte above 127
  where it is signed.
\<close>

lemma count_loop_returns_iff:
  "(\<exists>t'. count_loop sc str t = Inr t') \<longleftrightarrow> (sc \<longrightarrow> seven_bit str)"
proof (induction str arbitrary: t)
  case Nil
  then show ?case by (simp add: seven_bit_def c_str_def)
next
  case (Cons c cs)
  show ?case
  proof (cases "c = CHR 0x00")
    case True
    then show ?thesis by (simp add: seven_bit_def c_str_def)
  next
    case False
    show ?thesis
    proof (cases "sc \<and> 128 \<le> (of_char c :: int)")
      case True
      then have "\<not> (\<exists>t'. count_char sc c t = Inr t')"
        using count_char_returns_iff [of sc c t] by simp
      then obtain f where "count_char sc c t = Inl f"
        by (cases "count_char sc c t") auto
      with False True show ?thesis by (simp add: seven_bit_def c_str_def)
    next
      case hi: False
      then obtain t1 where t1: "count_char sc c t = Inr t1"
        using count_char_returns_iff [of sc c t] by blast
      have "(sc \<longrightarrow> seven_bit (c # cs)) \<longleftrightarrow> (sc \<longrightarrow> seven_bit cs)"
        using False hi by (auto simp: seven_bit_def c_str_def)
      with Cons.IH [of "t1\<lparr>total := total t1 + 1\<rparr>"] t1 False show ?thesis by simp
    qed
  qed
qed

lemma bump_nonneg:
  assumes "list_all (\<lambda>x. (0::int) \<le> x) xs"
  shows "list_all (\<lambda>x. 0 \<le> x) (xs[k := xs ! k + 1])"
proof (cases "k < length xs")
  case True
  with assms have "0 \<le> xs ! k" by (simp add: list_all_length)
  with assms True show ?thesis
    by (auto simp: list_all_length nth_list_update)
next
  case False
  with assms show ?thesis by (simp add: list_update_beyond not_less)
qed

lemma count_char_nonneg:
  assumes "count_char sc c t = Inr t'" and "nonneg_counts t"
  shows "nonneg_counts t'"
  using assms bump_nonneg [of "chars t" "unat (word_of_int (char_value sc c) :: size_t)"]
  by (auto simp: count_char_def Let_def nonneg_counts_def split: if_splits)

lemma count_loop_nonneg:
  assumes "count_loop sc str t = Inr t'" and "nonneg_counts t"
  shows "nonneg_counts t'"
  using assms
proof (induction str arbitrary: t)
  case Nil
  then show ?case by simp
next
  case (Cons c cs)
  show ?case
  proof (cases "c = CHR 0x00")
    case True
    with Cons.prems show ?thesis by simp
  next
    case False
    with Cons.prems obtain t1 where t1: "count_char sc c t = Inr t1"
      and rest: "count_loop sc cs (t1\<lparr>total := total t1 + 1\<rparr>) = Inr t'"
      by (auto split: sum.splits)
    from count_char_nonneg [OF t1 Cons.prems(2)]
    have "nonneg_counts (t1\<lparr>total := total t1 + 1\<rparr>)" by (simp add: nonneg_counts_def)
    from Cons.IH [OF rest this] show ?thesis .
  qed
qed

lemma nonneg_counts0: "nonneg_counts counts0"
  by (simp add: nonneg_counts_def counts0_def list_all_length)

text \<open>The tables of a completed counting pass.\<close>

lemma tables_sum_to_length:
  assumes "count_loop sc str counts0 = Inr t"
  shows "class_sum t = int (length (c_str str))"
    and "sum_list (chars t) = int (length (c_str str))"
    and "total t = int (length (c_str str))"
    and "length (chars t) = 256"
    and "nonneg_counts t"
proof -
  have "length (chars counts0) = 256" by (simp add: counts0_def)
  from count_loop_Inr [OF assms this]
  show "class_sum t = int (length (c_str str))"
    and "sum_list (chars t) = int (length (c_str str))"
    and "total t = int (length (c_str str))"
    and "length (chars t) = 256"
    by (simp_all add: counts0_def class_sum_def sum_list_replicate)
  from count_loop_nonneg [OF assms nonneg_counts0] show "nonneg_counts t" .
qed

lemma entry_le_sum:
  assumes "list_all (\<lambda>x. (0::int) \<le> x) xs" and "x \<in> set xs"
  shows "x \<le> sum_list xs"
  using assms by (induction xs) (auto simp: sum_list_nonneg list_all_iff intro: add_increasing add_increasing2)

lemma counters_bounded:
  assumes t: "count_loop sc str counts0 = Inr t" and len: "length (c_str str) \<le> 21474836"
  shows "list_all (\<lambda>x. 0 \<le> x \<and> x * 100 < 2 ^ 31)
           ([total_digits t, total_lower t, total_upper t, total_punct t, total_space t,
             total_other t] @ chars t)
         \<and> 0 \<le> total t \<and> total t < 2 ^ 31"
proof -
  let ?n = "int (length (c_str str))"
  note T = tables_sum_to_length [OF t]
  from T(5) have nn: "list_all (\<lambda>x. 0 \<le> x) (chars t)" "0 \<le> total_digits t" "0 \<le> total_lower t"
    "0 \<le> total_upper t" "0 \<le> total_punct t" "0 \<le> total_space t" "0 \<le> total_other t"
    by (simp_all add: nonneg_counts_def)
  from T(1) nn have cls: "total_digits t \<le> ?n" "total_lower t \<le> ?n" "total_upper t \<le> ?n"
    "total_punct t \<le> ?n" "total_space t \<le> ?n" "total_other t \<le> ?n"
    by (simp_all add: class_sum_def)
  have tab: "list_all (\<lambda>x. 0 \<le> x \<and> x * 100 < 2 ^ 31) (chars t)"
    unfolding list_all_iff
  proof
    fix x assume x: "x \<in> set (chars t)"
    with nn(1) have "0 \<le> x" by (simp add: list_all_iff)
    moreover from entry_le_sum [OF nn(1) x] T(2) have "x \<le> ?n" by simp
    ultimately show "0 \<le> x \<and> x * 100 < 2 ^ 31" using len by simp
  qed
  from cls nn len tab T(3) show ?thesis by simp
qed

section \<open>Percentages\<close>

text \<open>
  A counter of at most 21474836 times 100 fits into 32 bits, so the wrap leaves the
  product alone and the percentage is the floor of the exact quotient.
\<close>

lemma int32_id: "- 2147483648 \<le> x \<Longrightarrow> x < 2147483648 \<Longrightarrow> int32 x = x"
  by (simp add: int32_def)

lemma percent_nonneg_div:
  "0 \<le> n \<Longrightarrow> n \<le> 21474836 \<Longrightarrow> 0 < tot \<Longrightarrow> percent n tot = (n * 100) div tot"
  by (simp add: percent_def int32_id signed_divide_int_def sgn_if)

lemma percent_floor:
  assumes "0 \<le> n" "n \<le> 21474836" "0 < tot"
  shows "percent n tot * tot \<le> n * 100 \<and> n * 100 < (percent n tot + 1) * tot"
proof -
  have d: "percent n tot = (n * 100) div tot" using assms by (rule percent_nonneg_div)
  define q where "q = (n * 100) div tot"
  define r where "r = (n * 100) mod tot"
  have split: "q * tot + r = n * 100"
    unfolding q_def r_def by (rule div_mult_mod_eq)
  have r: "0 \<le> r" "r < tot"
    using assms(3) by (simp_all add: r_def)
  have "(q + 1) * tot = q * tot + tot" by (simp add: algebra_simps)
  with split r have "q * tot \<le> n * 100 \<and> n * 100 < (q + 1) * tot" by linarith
  then show ?thesis by (simp add: d q_def)
qed

text \<open>
  The floor is the only integer between the two bounds, so the bounds say what the
  percentage is.
\<close>

lemma floor_unique:
  assumes "0 < (tot::int)" and "p * tot \<le> x" "x < (p + 1) * tot"
    and "q * tot \<le> x" "x < (q + 1) * tot"
  shows "p = q"
proof (rule ccontr)
  assume "p \<noteq> q"
  then consider "p + 1 \<le> q" | "q + 1 \<le> p" by linarith
  then show False
  proof cases
    case 1
    then have "(p + 1) * tot \<le> q * tot" using assms(1) by (simp add: mult_right_mono)
    with assms show False by linarith
  next
    case 2
    then have "(q + 1) * tot \<le> p * tot" using assms(1) by (simp add: mult_right_mono)
    with assms show False by linarith
  qed
qed

text \<open>
  The test \<^verbatim>\<open>percent > 60\<close> on a truncated percentage: at least 61 hundredths of the
  total, in exact arithmetic.
\<close>

lemma percent_gt_60_iff:
  assumes "0 \<le> n" "n \<le> 21474836" "0 < tot"
  shows "60 < percent n tot \<longleftrightarrow> 61 * tot \<le> n * 100"
proof
  assume "60 < percent n tot"
  then have "61 \<le> percent n tot" by simp
  then have "61 * tot \<le> percent n tot * tot" using assms(3) by (simp add: mult_right_mono)
  with percent_floor [OF assms] show "61 * tot \<le> n * 100" by linarith
next
  assume h: "61 * tot \<le> n * 100"
  show "60 < percent n tot"
  proof (rule ccontr)
    assume "\<not> 60 < percent n tot"
    then have "percent n tot + 1 \<le> 61" by simp
    then have "(percent n tot + 1) * tot \<le> 61 * tot"
      using assms(3) by (simp add: mult_right_mono)
    with percent_floor [OF assms] h show False by linarith
  qed
qed

lemma percent_1_9: "percent 1 9 = 11"
  by (simp add: percent_def int32_def signed_divide_int_def)

text \<open>Past the bound the wrapped product shows: all of 21474837 bytes are -99 percent.\<close>

lemma percent_wraps: "percent 21474837 21474837 = - 99"
  by (simp add: percent_def int32_def signed_divide_int_def)

lemma counters_le_length:
  assumes t: "count_loop sc str counts0 = Inr t"
  shows "list_all (\<lambda>x. 0 \<le> x \<and> x \<le> int (length (c_str str)))
           ([total_digits t, total_lower t, total_upper t, total_punct t, total_space t,
             total_other t] @ chars t)"
proof -
  let ?n = "int (length (c_str str))"
  note T = tables_sum_to_length [OF t]
  from T(5) have nn: "list_all (\<lambda>x. 0 \<le> x) (chars t)" "0 \<le> total_digits t" "0 \<le> total_lower t"
    "0 \<le> total_upper t" "0 \<le> total_punct t" "0 \<le> total_space t" "0 \<le> total_other t"
    by (simp_all add: nonneg_counts_def)
  from T(1) nn have cls: "total_digits t \<le> ?n" "total_lower t \<le> ?n" "total_upper t \<le> ?n"
    "total_punct t \<le> ?n" "total_space t \<le> ?n" "total_other t \<le> ?n"
    by (simp_all add: class_sum_def)
  have tab: "list_all (\<lambda>x. 0 \<le> x \<and> x \<le> ?n) (chars t)"
    unfolding list_all_iff
  proof
    fix x assume x: "x \<in> set (chars t)"
    with nn(1) have "0 \<le> x" by (simp add: list_all_iff)
    moreover from entry_le_sum [OF nn(1) x] T(2) have "x \<le> ?n" by simp
    ultimately show "0 \<le> x \<and> x \<le> ?n" by simp
  qed
  from cls nn tab show ?thesis by simp
qed

section \<open>The single-character loop\<close>

lemma char_loop_stop:
  "\<not> (i < 255 \<and> it < total p) \<Longrightarrow> char_loop p e i it = None"
  by (subst char_loop.simps) auto

lemma char_loop_hit:
  "i < 255 \<Longrightarrow> it < total p \<Longrightarrow> 60 < percent (chars p ! i) (total p) \<Longrightarrow>
   char_loop p e i it =
     Some (True, strdup_to ''Password contains too many of a single character'' e)"
  by (subst char_loop.simps) (simp add: Let_def)

lemma char_loop_step:
  "i < 255 \<Longrightarrow> it < total p \<Longrightarrow> \<not> 60 < percent (chars p ! i) (total p) \<Longrightarrow>
   char_loop p e i it = char_loop p e (i + 1) (it + chars p ! i)"
  by (subst char_loop.simps) (simp add: Let_def)

lemma char_loop_Some:
  "char_loop p e i it = Some r \<Longrightarrow>
     r = (True, strdup_to ''Password contains too many of a single character'' e)"
proof (induction p e i it rule: char_loop.induct)
  case (1 p errstr i iter_total)
  consider (stop) "\<not> (i < 255 \<and> iter_total < total p)"
    | (hit) "i < 255" "iter_total < total p" "60 < percent (chars p ! i) (total p)"
    | (step) "i < 255" "iter_total < total p" "\<not> 60 < percent (chars p ! i) (total p)"
    by blast
  then show ?case
  proof cases
    case stop
    with "1.prems" show ?thesis by (simp add: char_loop_stop)
  next
    case hit
    with "1.prems" show ?thesis by (simp add: char_loop_hit)
  next
    case step
    with "1.prems" have "char_loop p errstr (i + 1) (iter_total + chars p ! i) = Some r"
      by (simp add: char_loop_step)
    with "1.IH" [OF _ refl refl] step show ?thesis by simp
  qed
qed

lemma char_loop_cell:
  "char_loop p e i it = None \<longleftrightarrow> char_loop p e' i it = None"
proof (induction p e i it rule: char_loop.induct)
  case (1 p errstr i iter_total)
  consider (stop) "\<not> (i < 255 \<and> iter_total < total p)"
    | (hit) "i < 255" "iter_total < total p" "60 < percent (chars p ! i) (total p)"
    | (step) "i < 255" "iter_total < total p" "\<not> 60 < percent (chars p ! i) (total p)"
    by blast
  then show ?case
  proof cases
    case stop
    then show ?thesis by (simp add: char_loop_stop)
  next
    case hit
    then show ?thesis by (simp add: char_loop_hit)
  next
    case step
    with "1.IH" [OF _ refl refl] show ?thesis by (simp add: char_loop_step)
  qed
qed

lemma percent_zero: "percent 0 tot = 0"
  by (simp add: percent_def int32_def)

lemma tail_zero:
  assumes nn: "list_all (\<lambda>x. (0::int) \<le> x) xs"
    and full: "sum_list xs \<le> sum_list (take i xs)" and k: "i \<le> k" "k < length xs"
  shows "xs ! k = 0"
proof -
  have "sum_list xs = sum_list (take i xs) + sum_list (drop i xs)"
    by (metis append_take_drop_id sum_list_append)
  with full have le0: "sum_list (drop i xs) \<le> 0" by simp
  have nnd: "list_all (\<lambda>x. (0::int) \<le> x) (drop i xs)"
    using nn by (auto simp: list_all_iff dest: in_set_dropD)
  have "drop i xs ! (k - i) = xs ! k" and "k - i < length (drop i xs)"
    using k by simp_all
  then have mem: "xs ! k \<in> set (drop i xs)"
    by (metis nth_mem)
  from entry_le_sum [OF nnd mem] le0 have "xs ! k \<le> 0" by simp
  moreover from nnd mem have "0 \<le> xs ! k" by (simp add: list_all_iff)
  ultimately show ?thesis by simp
qed

lemma char_loop_scan:
  assumes "list_all (\<lambda>x. 0 \<le> x) (chars p)" and "length (chars p) = 256"
    and "sum_list (chars p) = total p"
    and "it = sum_list (take i (chars p))"
  shows "char_loop p e i it \<noteq> None \<longleftrightarrow>
           (\<exists>k. i \<le> k \<and> k < 255 \<and> 60 < percent (chars p ! k) (total p))"
  using assms
proof (induction p e i it rule: char_loop.induct)
  case (1 p errstr i iter_total)
  note nn = "1.prems"(1) and len = "1.prems"(2) and tot = "1.prems"(3) and it = "1.prems"(4)
  consider (stop) "\<not> (i < 255 \<and> iter_total < total p)"
    | (hit) "i < 255" "iter_total < total p" "60 < percent (chars p ! i) (total p)"
    | (step) "i < 255" "iter_total < total p" "\<not> 60 < percent (chars p ! i) (total p)"
    by blast
  then show ?case
  proof cases
    case stop
    have "\<not> (\<exists>k. i \<le> k \<and> k < 255 \<and> 60 < percent (chars p ! k) (total p))"
    proof
      assume "\<exists>k. i \<le> k \<and> k < 255 \<and> 60 < percent (chars p ! k) (total p)"
      then obtain k where k: "i \<le> k" "k < 255" "60 < percent (chars p ! k) (total p)"
        by blast
      with stop have "total p \<le> iter_total" by simp
      with it tot have "sum_list (chars p) \<le> sum_list (take i (chars p))" by simp
      from tail_zero [OF nn this k(1)] k(2) len have "chars p ! k = 0" by simp
      with k(3) show False by (simp add: percent_zero)
    qed
    with stop show ?thesis by (simp add: char_loop_stop)
  next
    case hit
    then have "char_loop p errstr i iter_total \<noteq> None" by (simp add: char_loop_hit)
    moreover from hit have "\<exists>k. i \<le> k \<and> k < 255 \<and> 60 < percent (chars p ! k) (total p)"
      by blast
    ultimately show ?thesis by simp
  next
    case step
    have "iter_total + chars p ! i = sum_list (take (i + 1) (chars p))"
      using it step(1) len by (simp add: take_Suc_conv_app_nth)
    from "1.IH" [OF _ refl refl _ nn len tot this] step
    have ih: "char_loop p errstr (i + 1) (iter_total + chars p ! i) \<noteq> None \<longleftrightarrow>
        (\<exists>k. i + 1 \<le> k \<and> k < 255 \<and> 60 < percent (chars p ! k) (total p))"
      by simp
    have "(\<exists>k. i + 1 \<le> k \<and> k < 255 \<and> 60 < percent (chars p ! k) (total p))
        \<longleftrightarrow> (\<exists>k. i \<le> k \<and> k < 255 \<and> 60 < percent (chars p ! k) (total p))"
    proof
      assume "\<exists>k. i + 1 \<le> k \<and> k < 255 \<and> 60 < percent (chars p ! k) (total p)"
      then show "\<exists>k. i \<le> k \<and> k < 255 \<and> 60 < percent (chars p ! k) (total p)"
        by (meson add_leD1)
    next
      assume "\<exists>k. i \<le> k \<and> k < 255 \<and> 60 < percent (chars p ! k) (total p)"
      then obtain k where k: "i \<le> k" "k < 255" "60 < percent (chars p ! k) (total p)"
        by blast
      with step(3) have "k \<noteq> i" by auto
      with k(1) have "i + 1 \<le> k" by simp
      with k show "\<exists>k. i + 1 \<le> k \<and> k < 255 \<and> 60 < percent (chars p ! k) (total p)"
        by blast
    qed
    with ih step show ?thesis by (simp add: char_loop_step)
  qed
qed

text \<open>
  The loop with its early exit finds a byte value exactly when a scan of all the indices
  below 255 does.
\<close>

lemma single_char_check_below_255:
  assumes t: "count_loop sc str counts0 = Inr t" and len: "8 \<le> length (c_str str)"
    and cc: "class_checks (to_percentages t) e = None"
  shows "is_simple sc str e =
     (if \<exists>k<255. 60 < percent (chars t ! k) (total t)
      then Inr (True, strdup_to ''Password contains too many of a single character'' e)
      else Inr (False, e))"
proof -
  let ?p = "to_percentages t"
  note T = tables_sum_to_length [OF t]
  have p: "chars ?p = chars t" "total ?p = total t" by (simp_all add: to_percentages_def)
  from T(5) have nn: "list_all (\<lambda>x. 0 \<le> x) (chars ?p)" by (simp add: nonneg_counts_def p)
  have scan: "char_loop ?p e 0 0 \<noteq> None \<longleftrightarrow>
      (\<exists>k. 0 \<le> k \<and> k < 255 \<and> 60 < percent (chars ?p ! k) (total ?p))"
    by (rule char_loop_scan [OF nn]) (simp_all add: p T)
  from T(3) len have big: "\<not> total t < 8" by simp
  show ?thesis
  proof (cases "char_loop ?p e 0 0")
    case None
    with scan t big cc show ?thesis by (simp add: is_simple_def p)
  next
    case (Some r)
    with scan t big cc char_loop_Some [OF Some] show ?thesis by (simp add: is_simple_def p)
  qed
qed

section \<open>The shape of what \<^verbatim>\<open>is_simple\<close> returns\<close>

lemma class_checks_eq:
  "class_checks p e =
     (if total_other p < 20 then map_option (\<lambda>msg. (True, strdup_to msg e)) (first_violation p)
      else None)"
  by (simp add: class_checks_def first_violation_def class_bounds_def)

lemma char_loop_eq:
  "char_loop p e i it =
     (if char_loop p null_errptr i it = None then None
      else Some (True, strdup_to ''Password contains too many of a single character'' e))"
proof (cases "char_loop p e i it")
  case None
  then show ?thesis using char_loop_cell [of p e i it null_errptr] by simp
next
  case (Some r)
  then have "char_loop p null_errptr i it \<noteq> None"
    using char_loop_cell [of p e i it null_errptr] by simp
  with Some char_loop_Some [OF Some] show ?thesis by simp
qed

lemma is_simple_eq:
  "is_simple sc str e =
     (case simple_verdict sc str of
        Inl f \<Rightarrow> Inl f
      | Inr None \<Rightarrow> Inr (False, e)
      | Inr (Some msg) \<Rightarrow> Inr (True, strdup_to msg e))"
proof (cases "count_loop sc str counts0")
  case (Inl f)
  then show ?thesis by (simp add: is_simple_def simple_verdict_def)
next
  case (Inr t)
  show ?thesis
  proof (cases "total t < 8")
    case True
    with Inr show ?thesis by (simp add: is_simple_def simple_verdict_def strdup_to_def)
  next
    case False
    let ?p = "to_percentages t"
    show ?thesis
    proof (cases "if total_other ?p < 20 then first_violation ?p else None")
      case (Some msg)
      with Inr False show ?thesis
        by (simp add: is_simple_def simple_verdict_def class_checks_eq strdup_to_def
            split: if_splits)
    next
      case None
      then have cc: "class_checks ?p e = None" "class_checks ?p null_errptr = None"
        by (simp_all add: class_checks_eq split: if_splits)
      show ?thesis
      proof (cases "char_loop ?p null_errptr 0 0 = None")
        case True
        with Inr False cc show ?thesis
          by (simp add: is_simple_def simple_verdict_def char_loop_eq [of ?p e])
      next
        case False
        then obtain r where r: "char_loop ?p null_errptr 0 0 = Some r" by auto
        from char_loop_Some [OF r] r Inr \<open>\<not> total t < 8\<close> cc False show ?thesis
          by (simp add: is_simple_def simple_verdict_def char_loop_eq [of ?p e] strdup_to_def)
      qed
    qed
  qed
qed

text \<open>
  \<^verbatim>\<open>is_simple\<close> returns exactly when the counting pass completes; the checks after
  the pass cannot fault.
\<close>

lemma is_simple_returns_iff:
  "(\<exists>r. is_simple sc str e = Inr r) \<longleftrightarrow> (sc \<longrightarrow> seven_bit str)"
proof (cases "count_loop sc str counts0")
  case (Inl f)
  then have "\<not> (\<exists>t. count_loop sc str counts0 = Inr t)" by simp
  with Inl show ?thesis
    using count_loop_returns_iff [of sc str counts0] by (simp add: is_simple_def)
next
  case (Inr t)
  then have "\<exists>t. count_loop sc str counts0 = Inr t" by simp
  with Inr show ?thesis
    using count_loop_returns_iff [of sc str counts0]
    by (auto simp: is_simple_def Let_def split: option.splits)
qed

section \<open>The shape of what \<^verbatim>\<open>check_password\<close> returns\<close>

lemma identity_hints_cleared:
  "\<exists>w'. identity_hints pEntry w = (None, None, w') \<and> ppErrStr w' = ppErrStr w"
  by (cases pEntry) (auto simp: identity_hints_def Let_def emit_def split: prod.splits)

lemma check_password_unfold:
  assumes h: "identity_hints entry (emit (Openlog ''slapd'') w) = (None, None, w2)"
  shows "check_password sc lib pw entry w =
     (case is_palindrome sc pw of
        Inl f \<Rightarrow> Inl f
      | Inr True \<Rightarrow>
          Inr (- 1, emit Closelog
            ((emit (Syslog LOG_INFO
               ''User %s attempted to change password to a bad password (palindrome)'' [None]) w2)
             \<lparr>ppErrStr := strdup_to ''Password is a palindrome'' (ppErrStr w2)\<rparr>))
      | Inr False \<Rightarrow>
          (case simple_verdict sc pw of
             Inl f \<Rightarrow> Inl f
           | Inr (Some msg) \<Rightarrow>
               Inr (- 1, emit Closelog
                 (emit (Syslog LOG_INFO
                    ''User %s attempted to change password to a bad password (insufficiently complex: %s''
                    [None, Some msg])
                  (w2\<lparr>ppErrStr := strdup_to msg (ppErrStr w2)\<rparr>)))
           | Inr None \<Rightarrow> Inl NullDeref))"
proof (cases "is_palindrome sc pw")
  case (Inl f)
  then show ?thesis by (simp only: check_password_def Let_def h) simp
next
  case (Inr b)
  note palb = this
  show ?thesis
  proof (cases b)
    case True
    with palb show ?thesis
      by (simp only: check_password_def Let_def h) (simp add: emit_def)
  next
    case False
    with palb have pal: "is_palindrome sc pw = Inr False" by simp
    show ?thesis
    proof (cases "simple_verdict sc pw")
      case (Inl f)
      then have "is_simple sc pw (ppErrStr w2) = Inl f" by (simp add: is_simple_eq)
      with pal Inl show ?thesis by (simp only: check_password_def Let_def h) simp
    next
      case (Inr r)
      show ?thesis
      proof (cases r)
        case None
        with Inr have "is_simple sc pw (ppErrStr w2) = Inr (False, ppErrStr w2)"
          by (simp add: is_simple_eq)
        with pal Inr None show ?thesis
          by (simp only: check_password_def Let_def h) (simp add: dictionary_stage_def)
      next
        case (Some msg)
        with Inr have "is_simple sc pw (ppErrStr w2) = Inr (True, strdup_to msg (ppErrStr w2))"
          by (simp add: is_simple_eq)
        with pal Inr Some show ?thesis
          by (simp only: check_password_def Let_def h) (simp add: strdup_to_def)
      qed
    qed
  qed
qed

lemma check_password_verdict:
  "verdict (check_password sc lib pw entry w) =
     (case is_palindrome sc pw of
        Inl f \<Rightarrow> Inl f
      | Inr True \<Rightarrow> Inr (- 1, Some ''Password is a palindrome'')
      | Inr False \<Rightarrow>
          (case simple_verdict sc pw of
             Inl f \<Rightarrow> Inl f
           | Inr (Some msg) \<Rightarrow> Inr (- 1, Some msg)
           | Inr None \<Rightarrow> Inl NullDeref))"
proof -
  obtain w2 where h: "identity_hints entry (emit (Openlog ''slapd'') w) = (None, None, w2)"
    using identity_hints_cleared by blast
  show ?thesis
    by (simp add: check_password_unfold [OF h] verdict_def LDAP_SUCCESS_def emit_def strdup_to_def
        split: sum.splits bool.splits option.splits)
qed

lemma check_password_Inr:
  assumes "check_password sc lib pw entry w = Inr (rc, w')"
  shows "rc = - 1 \<and> (\<exists>msg. ppErrStr w' = strdup_to msg (ppErrStr w))"
proof -
  obtain w2 where h: "identity_hints entry (emit (Openlog ''slapd'') w) = (None, None, w2)"
    and e: "ppErrStr w2 = ppErrStr (emit (Openlog ''slapd'') w)"
    using identity_hints_cleared by blast
  from e have e': "ppErrStr w2 = ppErrStr w" by (simp add: emit_def)
  from assms show ?thesis
    by (auto simp: check_password_unfold [OF h] emit_def e'
        split: sum.splits bool.splits option.splits)
qed

text \<open>
  No run returns \<^verbatim>\<open>LDAP_SUCCESS\<close>: a password that passes both checks arrives at
  the condition \<^verbatim>\<open>*uid\<close> with \<^verbatim>\<open>uid\<close> null, whatever the entry, the state and
  cracklib are.
\<close>

lemma check_password_no_success:
  "check_password sc lib pw entry w \<noteq> Inr (LDAP_SUCCESS, w')"
proof
  assume "check_password sc lib pw entry w = Inr (LDAP_SUCCESS, w')"
  from check_password_Inr [OF this] show False by (simp add: LDAP_SUCCESS_def)
qed

lemma verdict_Inl: "verdict r = Inl f \<Longrightarrow> r = Inl f"
  by (simp add: verdict_def split: sum.splits prod.splits)

lemma accepted_password_not_palindrome: "is_palindrome sc ''Ab1!Ab1!'' = Inr False"
  by (cases sc)
    (simp_all add: is_palindrome_def strlen_def c_str_def str_at_def pal_loop.simps
      tolower_def char_value_def)

lemma accepted_password_simple_verdict: "simple_verdict sc ''Ab1!Ab1!'' = Inr None"
  by (cases sc; simp; code_simp)

lemma accepted_password_faults:
  "check_password sc lib ''Ab1!Ab1!'' entry w = Inl NullDeref"
proof -
  have "verdict (check_password sc lib ''Ab1!Ab1!'' entry w) = Inl NullDeref"
    by (simp add: check_password_verdict accepted_password_not_palindrome
        accepted_password_simple_verdict)
  then show ?thesis by (rule verdict_Inl)
qed

text \<open>
  What a run that returns has decided does not depend on the state it started in, on the
  entry or on cracklib: any other run on the same password returns the same code and
  leaves the same reason.
\<close>

lemma rejection_reproducible:
  assumes "check_password sc lib pw entry w = Inr (rc, w1)"
  shows "rc = - 1
     \<and> verdict (check_password sc lib' pw entry' w') = Inr (- 1, pointee (ppErrStr w1))"
proof -
  from check_password_Inr [OF assms] have rc: "rc = - 1" by simp
  with assms have "verdict (check_password sc lib pw entry w) = Inr (- 1, pointee (ppErrStr w1))"
    by (simp add: verdict_def LDAP_SUCCESS_def)
  then have "verdict (check_password sc lib' pw entry' w') = Inr (- 1, pointee (ppErrStr w1))"
    by (simp add: check_password_verdict)
  with rc show ?thesis by simp
qed

text \<open>
  The assignments to the error string: \<^verbatim>\<open>is_simple\<close> makes none when it returns
  false and one when it returns true; the last stage makes none when it returns
  \<^verbatim>\<open>LDAP_SUCCESS\<close> and one otherwise; every run of \<^verbatim>\<open>check_password\<close> that
  returns has made one.
\<close>

lemma errstr_assignments:
  "(is_simple sc str e = Inr (b, e') \<longrightarrow>
      (if b then (\<exists>msg. pointee e' = Some msg) \<and> assigned e' = assigned e + 1 else e' = e))
   \<and> (dictionary_stage lib pw dict uid gecos w1 = Inr (rc1, w1') \<longrightarrow>
      (if rc1 = LDAP_SUCCESS then ppErrStr w1' = ppErrStr w1
       else (\<exists>msg. pointee (ppErrStr w1') = Some msg)
            \<and> assigned (ppErrStr w1') = assigned (ppErrStr w1) + 1))
   \<and> (check_password sc lib pw entry w = Inr (rc, w') \<longrightarrow>
      rc = - 1 \<and> (\<exists>msg. pointee (ppErrStr w') = Some msg)
            \<and> assigned (ppErrStr w') = assigned (ppErrStr w) + 1)"
proof -
  have simple: "if b then (\<exists>msg. pointee e' = Some msg) \<and> assigned e' = assigned e + 1 else e' = e"
    if "is_simple sc str e = Inr (b, e')"
    using that
    by (auto simp: is_simple_eq [of sc str e] strdup_to_def split: sum.splits option.splits)
  have stage: "if rc1 = LDAP_SUCCESS then ppErrStr w1' = ppErrStr w1
        else (\<exists>msg. pointee (ppErrStr w1') = Some msg)
             \<and> assigned (ppErrStr w1') = assigned (ppErrStr w1) + 1"
    if "dictionary_stage lib pw dict uid gecos w1 = Inr (rc1, w1')"
    using that
    by (auto simp: dictionary_stage_def Let_def LDAP_SUCCESS_def emit_def strdup_to_def
        split: option.splits if_splits)
  have whole: "rc = - 1 \<and> (\<exists>msg. pointee (ppErrStr w') = Some msg)
            \<and> assigned (ppErrStr w') = assigned (ppErrStr w) + 1"
    if "check_password sc lib pw entry w = Inr (rc, w')"
    using check_password_Inr [OF that] by (auto simp: strdup_to_def)
  from simple stage whole show ?thesis by blast
qed

section \<open>Runs on fixed passwords\<close>

lemma ex_simple_accept: "is_simple True ''Ab1!Ab1!'' null_errptr = Inr (False, null_errptr)"
  by code_simp

lemma ex_simple_reject:
  "is_simple True ''11111111'' null_errptr =
     Inr (True, \<lparr>pointee = Some ''Password contains too many digits'', assigned = 1\<rparr>)"
  by code_simp

lemma ex_check_short:
  "check_password True lenient_cracklib ''short1!'' None fresh_world =
     Inr (- 1, \<lparr>ppErrStr = \<lparr>pointee = Some ''Password is too short'', assigned = 1\<rparr>,
       logged = [Openlog ''slapd'',
         Syslog LOG_INFO
           ''User %s attempted to change password to a bad password (insufficiently complex: %s''
           [None, Some ''Password is too short''],
         Closelog]\<rparr>)"
  by code_simp

lemma ex_pal_short: "is_palindrome True ''short1!'' = Inr False"
  by (simp add: is_palindrome_def strlen_def c_str_def str_at_def pal_loop.simps tolower_def
      char_value_def)

lemma ex_pal_abba: "is_palindrome True ''AbBa'' = Inr True"
  by (simp add: is_palindrome_def strlen_def c_str_def str_at_def pal_loop.simps tolower_def
      char_value_def)

lemma ex_stage_accept:
  "dictionary_stage lenient_cracklib ''Ab1!Ab1!'' ''dict'' (Some ''bob'') None fresh_world =
     Inr (LDAP_SUCCESS, \<lparr>ppErrStr = null_errptr, logged = [Closelog]\<rparr>)"
  by (simp add: dictionary_stage_def lenient_cracklib_def fresh_world_def emit_def str_at_def
      c_str_def Let_def)

lemma ex_stage_reject:
  "dictionary_stage strict_cracklib ''Ab1!Ab1!'' ''dict'' (Some ''bob'') None fresh_world =
     Inr (- 1, \<lparr>ppErrStr = \<lparr>pointee = Some ''it is based on your username'', assigned = 1\<rparr>,
       logged = [Syslog LOG_INFO
           ''User %s attempted to change password to a bad password (cracklib: %s)''
           [Some ''bob'', Some ''it is based on your username''],
         Closelog]\<rparr>)"
  by (simp add: dictionary_stage_def strict_cracklib_def fresh_world_def null_errptr_def
      emit_def strdup_to_def str_at_def c_str_def Let_def)

chapter \<open>The claims\<close>

section \<open>C1: passwords shorter than 8 bytes\<close>

text \<open>
  C1 as stated does not hold: \<^verbatim>\<open>check_password\<close> calls \<^verbatim>\<open>is_palindrome\<close>
  before \<^verbatim>\<open>is_simple\<close>, so a palindrome of two to seven bytes is turned down as a
  palindrome and never reaches the length test.
\<close>

theorem short_palindrome_counterexample:
  "length (c_str ''aa'') < 8
   \<and> verdict (check_password True lenient_cracklib ''aa'' None fresh_world) =
        Inr (- 1, Some ''Password is a palindrome'')
   \<and> verdict (check_password True lenient_cracklib ''aa'' None fresh_world) \<noteq>
        Inr (- 1, Some ''Password is too short'')"
proof -
  have "is_palindrome True ''aa'' = Inr True"
    by (simp add: is_palindrome_def strlen_def c_str_def str_at_def pal_loop.simps tolower_def
      char_value_def)
  then show ?thesis by (simp add: check_password_verdict c_str_def)
qed

text \<open>
  C1, amended. \<^verbatim>\<open>is_simple\<close> turns down every password shorter than 8 bytes, the
  empty one included, as too short, whatever its bytes; \<^verbatim>\<open>check_password\<close> does
  the same for every such password on which \<^verbatim>\<open>is_palindrome\<close> returns false, and
  reports a palindrome where it returns true. (The counting pass must stay inside the
  byte table: plain \<^verbatim>\<open>char\<close> unsigned, or no byte above 127.)
\<close>

theorem short_password_too_short:
  assumes len: "length (c_str pw) < 8" and tab: "sc \<longrightarrow> seven_bit pw"
  shows "is_simple sc pw e = Inr (True, strdup_to ''Password is too short'' e)
     \<and> (is_palindrome sc pw = Inr False \<longrightarrow>
          verdict (check_password sc lib pw entry w) = Inr (- 1, Some ''Password is too short''))
     \<and> (is_palindrome sc pw = Inr True \<longrightarrow>
          verdict (check_password sc lib pw entry w) = Inr (- 1, Some ''Password is a palindrome''))"
proof -
  obtain t where t: "count_loop sc pw counts0 = Inr t"
    using count_loop_returns_iff [of sc pw counts0] tab by blast
  with len have "total t < 8" by (simp add: count_loop_total)
  with t have simple: "is_simple sc pw e' = Inr (True, strdup_to ''Password is too short'' e')" for e'
    by (simp add: is_simple_def)
  then have "simple_verdict sc pw = Inr (Some ''Password is too short'')"
    by (simp add: simple_verdict_def strdup_to_def)
  then show ?thesis using simple by (simp add: check_password_verdict)
qed

theorem short_password_too_short_witness:
  "length (c_str ''short1!'') < 8 \<and> seven_bit ''short1!''
   \<and> is_palindrome True ''short1!'' = Inr False
   \<and> is_simple True ''short1!'' null_errptr =
        Inr (True, strdup_to ''Password is too short'' null_errptr)
   \<and> verdict (check_password True lenient_cracklib ''short1!'' None fresh_world) =
        Inr (- 1, Some ''Password is too short'')
   \<and> length (c_str ''AbBa'') < 8 \<and> seven_bit ''AbBa''
   \<and> is_palindrome True ''AbBa'' = Inr True
   \<and> verdict (check_password True lenient_cracklib ''AbBa'' None fresh_world) =
        Inr (- 1, Some ''Password is a palindrome'')"
proof -
  have len: "length (c_str ''short1!'') < 8" and tab: "True \<longrightarrow> seven_bit ''short1!''"
    and len': "length (c_str ''AbBa'') < 8" and tab': "True \<longrightarrow> seven_bit ''AbBa''"
    by (simp_all add: c_str_def seven_bit_def)
  from short_password_too_short [OF len tab, of null_errptr lenient_cracklib None fresh_world]
    short_password_too_short [OF len' tab', of null_errptr lenient_cracklib None fresh_world]
    len tab len' tab' ex_pal_short ex_pal_abba
  show ?thesis by simp
qed

section \<open>C2: the single-character check on the byte 255\<close>

text \<open>
  C2 says that a byte value with more than 60 percent of the password is always
  reported, and that leaving the loop early changes nothing against a scan of all 256
  byte values. For the byte values below 255 this is \<open>single_char_check_below_255\<close>.
  But the loop runs over the indices below 255 of a table of 256 entries, so the entry
  of the byte 255 is never looked at: with plain \<^verbatim>\<open>char\<close> unsigned, a password of
  eight bytes 255 has 100 percent in that entry, passes the class checks through the
  20-percent exemption, and is found sufficiently complex.
\<close>

theorem is_simple_accepts_byte_255:
  "(case count_loop False (replicate 8 (CHR 0xFF)) counts0 of
      Inl f \<Rightarrow> False
    | Inr t \<Rightarrow> percent (chars (to_percentages t) ! 255) (total (to_percentages t)) = 100)
   \<and> is_simple False (replicate 8 (CHR 0xFF)) e = Inr (False, e)"
  by code_simp

section \<open>C3: the palindrome test on the empty string\<close>

text \<open>
  C3 says that \<^verbatim>\<open>is_palindrome\<close> returns true exactly for the strings of length at
  least 2 that read the same in both directions after case folding, and false for the
  lengths 0 and 1. For every non-empty string this is \<open>is_palindrome_nonempty\<close>. For
  the empty string the code computes \<^verbatim>\<open>j = strlen(str) - 1\<close> in \<^verbatim>\<open>size_t\<close>,
  which is \<open>2 ^ 64 - 1\<close>; the guard \<^verbatim>\<open>i == j\<close> catches length 1 only, and the
  first pass of the loop reads \<^verbatim>\<open>str[j]\<close>, far outside the string.
\<close>

theorem is_palindrome_empty_string: "is_palindrome sc '''' = Inl OutOfBounds"
  by (simp add: is_palindrome_def strlen_def c_str_def str_at_def pal_loop.simps size_max)

section \<open>C4: the order of the class checks\<close>

text \<open>
  C4. For every password of at least 8 bytes, what \<^verbatim>\<open>is_simple\<close> reports is read
  off the table \<open>class_bounds\<close> from top to bottom: digits (at most 40, at least 5),
  lowercase (60, 10), uppercase (60, 10), punctuation (70, 5), whitespace (at most 10),
  the upper bound of a class before its lower bound. When the class checks run (the other
  class is below 20 percent), the first row violated gives the one reason stored, by one
  assignment; when no row is violated, or the checks do not run, the result is that of
  the single-character loop.
\<close>

theorem class_checks_in_table_order:
  assumes t: "count_loop sc str counts0 = Inr t" and len: "8 \<le> length (c_str str)"
  shows "is_simple sc str e =
     (case (if total_other (to_percentages t) < 20 then first_violation (to_percentages t)
            else None) of
        Some msg \<Rightarrow> Inr (True, strdup_to msg e)
      | None \<Rightarrow>
         (case char_loop (to_percentages t) e 0 0 of
            Some r \<Rightarrow> Inr r
          | None \<Rightarrow> Inr (False, e)))"
proof -
  from t len have "\<not> total t < 8" by (simp add: count_loop_total)
  with t show ?thesis
    by (simp add: is_simple_def class_checks_eq split: option.splits)
qed

theorem class_checks_in_table_order_witness:
  "\<exists>t. count_loop True ''11111111'' counts0 = Inr t \<and> 8 \<le> length (c_str ''11111111'')
     \<and> total_other (to_percentages t) < 20
     \<and> first_violation (to_percentages t) = Some ''Password contains too many digits''
     \<and> violates (to_percentages t)
          (Lowercase, TooFew, 10, ''Password contains too few lowercase letters'')
     \<and> is_simple True ''11111111'' null_errptr =
          Inr (True, strdup_to ''Password contains too many digits'' null_errptr)"
proof -
  obtain t where t: "count_loop True ''11111111'' counts0 = Inr t"
    using count_loop_returns [of True "''11111111''" counts0] by (auto simp: c_str_def)
  have len: "8 \<le> length (c_str ''11111111'')" by (simp add: c_str_def)
  have "map_sum id (\<lambda>t. (total_other (to_percentages t), first_violation (to_percentages t),
           total_lower (to_percentages t)))
          (count_loop True ''11111111'' counts0)
        = Inr (0, Some ''Password contains too many digits'', 0)"
    by code_simp
  with t have v: "total_other (to_percentages t) = 0"
    "first_violation (to_percentages t) = Some ''Password contains too many digits''"
    "total_lower (to_percentages t) = 0"
    by simp_all
  from class_checks_in_table_order [OF t len, of null_errptr] v t len
  show ?thesis by auto
qed

section \<open>C5: the exemption for the other class\<close>

text \<open>
  C5. For every password of at least 8 bytes whose other-class percentage is 20 or more,
  the block of class checks returns nothing, whatever the other five percentages are:
  \<^verbatim>\<open>is_simple\<close> returns what the single-character loop finds, so it either accepts
  or turns the password down for too many of a single character.
\<close>

theorem other_class_exemption:
  assumes t: "count_loop sc str counts0 = Inr t" and len: "8 \<le> length (c_str str)"
    and other: "20 \<le> total_other (to_percentages t)"
  shows "class_checks (to_percentages t) e = None
     \<and> is_simple sc str e =
         (case char_loop (to_percentages t) e 0 0 of Some r \<Rightarrow> Inr r | None \<Rightarrow> Inr (False, e))
     \<and> (is_simple sc str e = Inr (False, e)
        \<or> is_simple sc str e =
            Inr (True, strdup_to ''Password contains too many of a single character'' e))"
proof -
  from t len have big: "\<not> total t < 8" by (simp add: count_loop_total)
  from other have cc: "class_checks (to_percentages t) e = None"
    by (simp add: class_checks_def)
  from t big cc have s: "is_simple sc str e =
      (case char_loop (to_percentages t) e 0 0 of Some r \<Rightarrow> Inr r | None \<Rightarrow> Inr (False, e))"
    by (simp add: is_simple_def)
  show ?thesis
  proof (cases "char_loop (to_percentages t) e 0 0")
    case None
    with cc s show ?thesis by simp
  next
    case (Some r)
    with cc s char_loop_Some [OF Some] show ?thesis by simp
  qed
qed

theorem other_class_exemption_witness:
  "\<exists>t. count_loop True [CHR 0x01, CHR 0x02, CHR 0x03, CHR 0x04, CHR 0x05, CHR 0x06, CHR 0x07, CHR 0x08] counts0 = Inr t
     \<and> 8 \<le> length (c_str [CHR 0x01, CHR 0x02, CHR 0x03, CHR 0x04, CHR 0x05, CHR 0x06, CHR 0x07, CHR 0x08])
     \<and> 20 \<le> total_other (to_percentages t)
     \<and> total_digits (to_percentages t) < 5
     \<and> class_checks (to_percentages t) null_errptr = None
     \<and> is_simple True [CHR 0x01, CHR 0x02, CHR 0x03, CHR 0x04, CHR 0x05, CHR 0x06, CHR 0x07, CHR 0x08] null_errptr
         = Inr (False, null_errptr)"
proof -
  let ?pw = "[CHR 0x01, CHR 0x02, CHR 0x03, CHR 0x04, CHR 0x05, CHR 0x06, CHR 0x07, CHR 0x08]"
  obtain t where t: "count_loop True ?pw counts0 = Inr t"
    using count_loop_returns [of True ?pw counts0] by (auto simp: c_str_def)
  have len: "8 \<le> length (c_str ?pw)" by (simp add: c_str_def)
  have "map_sum id (\<lambda>t. (total_other (to_percentages t), total_digits (to_percentages t)))
          (count_loop True ?pw counts0) = Inr (100, 0)"
    by code_simp
  with t have v: "total_other (to_percentages t) = 100" "total_digits (to_percentages t) = 0"
    by simp_all
  then have other: "20 \<le> total_other (to_percentages t)" by simp
  have acc: "is_simple True ?pw null_errptr = Inr (False, null_errptr)" by code_simp
  from other_class_exemption [OF t len other, of null_errptr] v t len acc
  show ?thesis by auto
qed

section \<open>C6: percentages are truncated quotients\<close>

text \<open>
  C6. The percentages \<^verbatim>\<open>is_simple\<close> works with are truncated quotients. For every
  password of 8 to 21474836 bytes (beyond which the product \<^verbatim>\<open>count * 100\<close> no
  longer fits the \<^verbatim>\<open>int\<close>), each of the six class percentages \<open>p\<close> made from a
  counter \<open>n\<close> is the largest integer with \<open>p * total \<le> n * 100\<close>; the
  single-character loop, which tests the truncated percentage of a table entry against
  60, reports exactly when an entry below index 255 has at least 61 hundredths of the
  total; and in a password of 9 bytes a class counter that is 1 becomes 11.
\<close>

theorem percentages_truncate:
  assumes t: "count_loop sc str counts0 = Inr t"
    and len: "8 \<le> length (c_str str)" "length (c_str str) \<le> 21474836"
  shows "list_all (\<lambda>(n, p). p * total t \<le> n * 100 \<and> n * 100 < (p + 1) * total t) (class_rows t)
     \<and> (char_loop (to_percentages t) e 0 0 \<noteq> None
          \<longleftrightarrow> (\<exists>k<255. 61 * total t \<le> chars t ! k * 100))
     \<and> (length (c_str str) = 9 \<longrightarrow> list_all (\<lambda>(n, p). n = 1 \<longrightarrow> p = 11) (class_rows t))"
proof -
  let ?n = "int (length (c_str str))"
  let ?p = "to_percentages t"
  note T = tables_sum_to_length [OF t]
  from T(3) len have tot: "0 < total t" "total t = ?n" by auto
  have cap: "?n \<le> 21474836" using len(2) by simp
  from counters_le_length [OF t] cap
  have cls: "0 \<le> total_digits t \<and> total_digits t \<le> 21474836"
    "0 \<le> total_lower t \<and> total_lower t \<le> 21474836"
    "0 \<le> total_upper t \<and> total_upper t \<le> 21474836"
    "0 \<le> total_punct t \<and> total_punct t \<le> 21474836"
    "0 \<le> total_space t \<and> total_space t \<le> 21474836"
    "0 \<le> total_other t \<and> total_other t \<le> 21474836"
    and tab: "list_all (\<lambda>x. 0 \<le> x \<and> x \<le> ?n) (chars t)"
    by simp_all
  have rows: "list_all (\<lambda>(n, p). p * total t \<le> n * 100 \<and> n * 100 < (p + 1) * total t)
      (class_rows t)"
    using cls tot(1)
    by (simp add: class_rows_def to_percentages_def percent_floor)
  have entry: "60 < percent (chars t ! k) (total t) \<longleftrightarrow> 61 * total t \<le> chars t ! k * 100"
    if "k < 255" for k
  proof -
    from that T(4) have "chars t ! k \<in> set (chars t)" by simp
    with tab cap have "0 \<le> chars t ! k" "chars t ! k \<le> 21474836"
      by (auto simp: list_all_iff)
    then show ?thesis using tot(1) by (rule percent_gt_60_iff)
  qed
  have p: "chars ?p = chars t" "total ?p = total t" by (simp_all add: to_percentages_def)
  from T(5) have nn: "list_all (\<lambda>x. 0 \<le> x) (chars ?p)" by (simp add: nonneg_counts_def p)
  have "char_loop ?p e 0 0 \<noteq> None \<longleftrightarrow>
      (\<exists>k. 0 \<le> k \<and> k < 255 \<and> 60 < percent (chars ?p ! k) (total ?p))"
    by (rule char_loop_scan [OF nn]) (simp_all add: p T)
  then have scan: "char_loop ?p e 0 0 \<noteq> None \<longleftrightarrow> (\<exists>k<255. 61 * total t \<le> chars t ! k * 100)"
    using entry by (auto simp: p)
  have nine: "list_all (\<lambda>(n, p). n = 1 \<longrightarrow> p = 11) (class_rows t)" if "length (c_str str) = 9"
  proof -
    from that tot have "total t = 9" by simp
    with rows show ?thesis by (auto simp: list_all_iff)
  qed
  from rows scan nine show ?thesis by blast
qed

text \<open>
  Two passwords on which truncating and rounding part ways. In the first, of 9 bytes,
  the seven lowercase letters are 77 percent (77.8 exactly). In the second, of 33 bytes,
  the byte 1 occurs 20 times: 60.6 percent exactly, 60 truncated, so the loop does not
  report it and \<^verbatim>\<open>is_simple\<close> accepts.
\<close>

theorem percentages_truncate_witness:
  "(\<exists>t. count_loop True ''abcdefgA1'' counts0 = Inr t
       \<and> 8 \<le> length (c_str ''abcdefgA1'') \<and> length (c_str ''abcdefgA1'') \<le> 21474836
       \<and> length (c_str ''abcdefgA1'') = 9
       \<and> class_rows t = [(1, 11), (7, 77), (1, 11), (0, 0), (0, 0), (0, 0)])
   \<and> (\<exists>t. count_loop True (replicate 20 (CHR 0x01) @ ''abcdefghijklm'') counts0 = Inr t
       \<and> 8 \<le> length (c_str (replicate 20 (CHR 0x01) @ ''abcdefghijklm''))
       \<and> length (c_str (replicate 20 (CHR 0x01) @ ''abcdefghijklm'')) \<le> 21474836
       \<and> total t = 33 \<and> chars t ! 1 = 20 \<and> \<not> (\<exists>k<255. 61 * total t \<le> chars t ! k * 100)
       \<and> char_loop (to_percentages t) null_errptr 0 0 = None
       \<and> is_simple True (replicate 20 (CHR 0x01) @ ''abcdefghijklm'') null_errptr
            = Inr (False, null_errptr))"
proof
  let ?pw = "''abcdefgA1''"
  obtain t where t: "count_loop True ?pw counts0 = Inr t"
    using count_loop_returns [of True ?pw counts0] by (auto simp: c_str_def)
  have len: "8 \<le> length (c_str ?pw)" "length (c_str ?pw) \<le> 21474836" "length (c_str ?pw) = 9"
    by (simp_all add: c_str_def)
  have "map_sum id class_rows (count_loop True ?pw counts0)
      = Inr [(1, 11), (7, 77), (1, 11), (0, 0), (0, 0), (0, 0)]"
    by code_simp
  with t have rows: "class_rows t = [(1, 11), (7, 77), (1, 11), (0, 0), (0, 0), (0, 0)]"
    by simp
  from percentages_truncate [OF t len(1,2), of null_errptr] t len rows
  show "\<exists>t. count_loop True ?pw counts0 = Inr t
       \<and> 8 \<le> length (c_str ?pw) \<and> length (c_str ?pw) \<le> 21474836
       \<and> length (c_str ?pw) = 9
       \<and> class_rows t = [(1, 11), (7, 77), (1, 11), (0, 0), (0, 0), (0, 0)]"
    by blast
next
  let ?pw = "replicate 20 (CHR 0x01) @ ''abcdefghijklm''"
  have seven: "seven_bit ?pw" by code_simp
  obtain t where t: "count_loop True ?pw counts0 = Inr t"
    using count_loop_returns_iff [of True ?pw counts0] seven by blast
  have "length (c_str ?pw) = 33" by code_simp
  then have len: "8 \<le> length (c_str ?pw)" "length (c_str ?pw) \<le> 21474836"
    by simp_all
  have "map_sum id (\<lambda>t. (total t, chars t ! 1, char_loop (to_percentages t) null_errptr 0 0))
          (count_loop True ?pw counts0) = Inr (33, 20, None)"
    by code_simp
  with t have v: "total t = 33" "chars t ! 1 = 20"
    "char_loop (to_percentages t) null_errptr 0 0 = None"
    by simp_all
  have acc: "is_simple True ?pw null_errptr = Inr (False, null_errptr)" by code_simp
  from percentages_truncate [OF t len, of null_errptr] v(3)
  have "\<not> (\<exists>k<255. 61 * total t \<le> chars t ! k * 100)" by simp
  with t len v acc
  show "\<exists>t. count_loop True ?pw counts0 = Inr t
       \<and> 8 \<le> length (c_str ?pw) \<and> length (c_str ?pw) \<le> 21474836
       \<and> total t = 33 \<and> chars t ! 1 = 20 \<and> \<not> (\<exists>k<255. 61 * total t \<le> chars t ! k * 100)
       \<and> char_loop (to_percentages t) null_errptr 0 0 = None
       \<and> is_simple True ?pw null_errptr = Inr (False, null_errptr)"
    by blast
qed

section \<open>C7: the byte table on a byte above 127\<close>

text \<open>
  C7 says that for every password both tables sum to its length, every byte being
  counted in one class and in one bucket of the byte table. Whenever the counting pass
  completes this is so (\<open>tables_sum_to_length\<close>), and \<open>count_loop_returns_iff\<close> says
  when it completes. Where plain \<^verbatim>\<open>char\<close> is signed, the index
  \<^verbatim>\<open>(size_t)*c\<close> of a byte above 127 is the sign-extended negative value, and the
  increment lands outside the table: for the two bytes of a UTF-8 encoded e-acute the
  pass does not complete.
\<close>

theorem count_loop_signed_high_byte:
  "count_loop True [CHR 0xC3, CHR 0xA9] counts0 = Inl OutOfBounds"
  by (simp add: count_char_def char_value_def Let_def index_negative)

section \<open>C8: determinism\<close>

text \<open>
  C8 says that two calls on the same password give the same verdict, for every
  password. For the passwords the code turns down this is \<open>rejection_reproducible\<close>.
  On the empty password there is no verdict to repeat: \<^verbatim>\<open>check_password\<close> begins
  with \<^verbatim>\<open>is_palindrome\<close>, which reads \<^verbatim>\<open>str[SIZE_MAX]\<close>, the byte in front of the
  string (the defect of C3), and what the call then does depends on memory that is not
  part of the password.
\<close>

theorem check_password_empty_password:
  "check_password sc lib '''' entry w = Inl OutOfBounds"
proof -
  have "is_palindrome sc '''' = Inl OutOfBounds"
    by (simp add: is_palindrome_def strlen_def c_str_def str_at_def pal_loop.simps size_max)
  then have "verdict (check_password sc lib '''' entry w) = Inl OutOfBounds"
    by (simp add: check_password_verdict)
  then show ?thesis by (rule verdict_Inl)
qed

section \<open>C9: the identity hints\<close>

text \<open>
  C9 says that cracklib is always called without the hints. The hints are indeed null
  after the first block, for an entry that has both attributes as for any other
  (\<open>identity_hints_cleared\<close>). But the last stage selects the entry point of cracklib by
  \<^verbatim>\<open>*uid\<close>, which reads through the null \<^verbatim>\<open>uid\<close>: a password that passes
  both checks never gets as far as either entry point.
\<close>

theorem check_password_null_uid:
  "get_user_info entry_bob = (True, Some ''Bob Smith'', Some ''bob'')
   \<and> identity_hints (Some entry_bob) w = (None, None, w)
   \<and> dictionary_stage lib ''Ab1!Ab1!'' dict None None w = Inl NullDeref
   \<and> check_password sc lib ''Ab1!Ab1!'' (Some entry_bob) w = Inl NullDeref"
proof -
  have info: "get_user_info entry_bob = (True, Some ''Bob Smith'', Some ''bob'')"
    by (simp add: get_user_info_def entry_bob_def a_numvals_def)
  then have "identity_hints (Some entry_bob) w = (None, None, w)"
    by (simp add: identity_hints_def)
  moreover have "dictionary_stage lib ''Ab1!Ab1!'' dict None None w = Inl NullDeref"
    by (simp add: dictionary_stage_def)
  ultimately show ?thesis using info by (simp add: accepted_password_faults)
qed

section \<open>C10: when the error string is written\<close>


end
